theory Spec2Isabelle
  imports Main "HOL-Library.Word" "HOL-Library.Signed_Division"
begin

unbundle bit_operations_syntax

section \<open>The byte cursor of \<^verbatim>\<open>parser.c\<close>\<close>

text \<open>
  The decoder reads the session region \<^verbatim>\<open>[logStart, logEnd)\<close> of the mapped file through
  \<^verbatim>\<open>logPos\<close>. The region is the byte list \<open>inp\<close>; pointers into it are offsets from
  \<^verbatim>\<open>logStart\<close>, so \<^verbatim>\<open>logPos < logEnd\<close> reads \<open>logPos c < length inp\<close>. The sticky flag
  \<^verbatim>\<open>eof\<close> is raised by a read at the end of the region.
\<close>

type_synonym u8 = "8 word"
type_synonym u32 = "32 word"

record logCursor =
  logPos :: nat
  eof :: bool

definition EOF :: int where
  "EOF = - 1"

definition readChar :: "u8 list \<Rightarrow> logCursor \<Rightarrow> int \<times> logCursor" where
  "readChar inp c =
     (if logPos c < length inp then (uint (inp ! logPos c), c\<lparr>logPos := logPos c + 1\<rparr>)
      else (EOF, c\<lparr>eof := True\<rparr>))"

text \<open>\<^verbatim>\<open>uint8_t x = readChar(log)\<close>: the conversion of the \<^verbatim>\<open>int\<close> to a byte (EOF becomes 255).\<close>

definition readByte :: "u8 list \<Rightarrow> logCursor \<Rightarrow> u8 \<times> logCursor" where
  "readByte inp c = (let (ch, c') = readChar inp c in (word_of_int ch, c'))"

section \<open>Integer codecs\<close>

text \<open>
  Modelled from the spec: the sign extension helpers are declared in \<^verbatim>\<open>tools.h\<close>, which is
  not among the sources. The spec: "Sign extension helpers for 2, 4, 6, 14, 24 bits: treat
  the top bit of the N-bit field as a sign bit and extend."
\<close>

definition signExtend2Bit :: "u8 \<Rightarrow> u32" where
  "signExtend2Bit b = signed_take_bit 1 (ucast b)"

definition signExtend4Bit :: "u8 \<Rightarrow> u32" where
  "signExtend4Bit b = signed_take_bit 3 (ucast b)"

definition signExtend6Bit :: "u8 \<Rightarrow> u32" where
  "signExtend6Bit b = signed_take_bit 5 (ucast b)"

definition signExtend14Bit :: "u32 \<Rightarrow> u32" where
  "signExtend14Bit w = signed_take_bit 13 w"

definition signExtend24Bit :: "u32 \<Rightarrow> u32" where
  "signExtend24Bit w = signed_take_bit 23 w"

text \<open>
  \<^verbatim>\<open>readUnsignedVB\<close>: at most five bytes, seven payload bits each, least significant group
  first. The first argument of the loop counts the iterations left (\<^verbatim>\<open>5 - i\<close>). The
  \<^verbatim>\<open>int\<close> value \<^verbatim>\<open>(c & ~0x80) << shift\<close> is or-ed into the \<^verbatim>\<open>uint32_t\<close> accumulator, which
  keeps its low 32 bits.
\<close>

fun readUnsignedVB_loop :: "u8 list \<Rightarrow> nat \<Rightarrow> nat \<Rightarrow> u32 \<Rightarrow> logCursor \<Rightarrow> u32 \<times> logCursor" where
  "readUnsignedVB_loop inp 0 shift result c = (0, c)"
| "readUnsignedVB_loop inp (Suc k) shift result c =
     (let (ch, c') = readChar inp c in
      if ch = EOF then (0, c')
      else
        let result' = result OR word_of_int (push_bit shift (ch AND NOT 128)) in
        if ch < 128 then (result', c')
        else readUnsignedVB_loop inp k (shift + 7) result' c')"

definition readUnsignedVB :: "u8 list \<Rightarrow> logCursor \<Rightarrow> u32 \<times> logCursor" where
  "readUnsignedVB inp c = readUnsignedVB_loop inp 5 0 0 c"

text \<open>\<^verbatim>\<open>readSignedVB\<close>: ZigZag decoding, \<^verbatim>\<open>(i >> 1) ^ -(int32_t) (i & 1)\<close>.\<close>

definition readSignedVB :: "u8 list \<Rightarrow> logCursor \<Rightarrow> u32 \<times> logCursor" where
  "readSignedVB inp c =
     (let (i, c') = readUnsignedVB inp c in (drop_bit 1 i XOR - (i AND 1), c'))"

text \<open>
  The group decoders fill a local array \<^verbatim>\<open>values[8]\<close>; it is a function from the lane index,
  and what the decoder does not write keeps the caller's contents.
\<close>

type_synonym lanes = "nat \<Rightarrow> u32"

text \<open>The sized fields of selector 3 of \<^verbatim>\<open>readTag2_3S32\<close>, little endian, sign extended.\<close>

definition readTag2_3S32_field :: "u8 list \<Rightarrow> u8 \<Rightarrow> logCursor \<Rightarrow> u32 \<times> logCursor" where
  "readTag2_3S32_field inp sel c =
     (if sel AND 3 = 0 then
        (let (byte1, c1) = readByte inp c in (scast byte1, c1))
      else if sel AND 3 = 1 then
        (let (byte1, c1) = readByte inp c; (byte2, c2) = readByte inp c1 in
         (scast ((ucast byte1 OR push_bit 8 (ucast byte2)) :: 16 word), c2))
      else if sel AND 3 = 2 then
        (let (byte1, c1) = readByte inp c; (byte2, c2) = readByte inp c1;
             (byte3, c3) = readByte inp c2 in
         (signExtend24Bit (ucast byte1 OR push_bit 8 (ucast byte2) OR push_bit 16 (ucast byte3)),
          c3))
      else
        (let (byte1, c1) = readByte inp c; (byte2, c2) = readByte inp c1;
             (byte3, c3) = readByte inp c2; (byte4, c4) = readByte inp c3 in
         (ucast byte1 OR push_bit 8 (ucast byte2) OR push_bit 16 (ucast byte3)
            OR push_bit 24 (ucast byte4), c4)))"

fun readTag2_3S32_sized :: "u8 list \<Rightarrow> nat \<Rightarrow> nat \<Rightarrow> u8 \<Rightarrow> lanes \<Rightarrow> logCursor \<Rightarrow> lanes \<times> logCursor" where
  "readTag2_3S32_sized inp 0 i leadByte values c = (values, c)"
| "readTag2_3S32_sized inp (Suc k) i leadByte values c =
     (let (v, c') = readTag2_3S32_field inp leadByte c in
      readTag2_3S32_sized inp k (i + 1) (drop_bit 2 leadByte) (values(i := v)) c')"

definition readTag2_3S32 :: "u8 list \<Rightarrow> lanes \<Rightarrow> logCursor \<Rightarrow> lanes \<times> logCursor" where
  "readTag2_3S32 inp values c =
     (let (leadByte, c0) = readByte inp c in
      if drop_bit 6 leadByte = 0 then
        (values(0 := signExtend2Bit (drop_bit 4 leadByte AND 3),
                1 := signExtend2Bit (drop_bit 2 leadByte AND 3),
                2 := signExtend2Bit (leadByte AND 3)), c0)
      else if drop_bit 6 leadByte = 1 then
        (let v0 = signExtend4Bit (leadByte AND 15);
             (leadByte', c1) = readByte inp c0 in
         (values(0 := v0,
                 1 := signExtend4Bit (drop_bit 4 leadByte'),
                 2 := signExtend4Bit (leadByte' AND 15)), c1))
      else if drop_bit 6 leadByte = 2 then
        (let v0 = signExtend6Bit (leadByte AND 63);
             (b1, c1) = readByte inp c0;
             (b2, c2) = readByte inp c1 in
         (values(0 := v0,
                 1 := signExtend6Bit (b1 AND 63),
                 2 := signExtend6Bit (b2 AND 63)), c2))
      else readTag2_3S32_sized inp 3 0 leadByte values c0)"

text \<open>
  \<^verbatim>\<open>readTag8_4S16_v1\<close>: a selector byte of four 2-bit lanes. A 4-bit lane takes the next
  lane with it (the inner \<^verbatim>\<open>i++; selector >>= 2\<close>), so the loop index can advance by two.
\<close>

function readTag8_4S16_v1_loop :: "u8 list \<Rightarrow> nat \<Rightarrow> u8 \<Rightarrow> lanes \<Rightarrow> logCursor \<Rightarrow> lanes \<times> logCursor" where
  "readTag8_4S16_v1_loop inp i selector values c =
     (if i < 4 then
        (if selector AND 3 = 0 then
           readTag8_4S16_v1_loop inp (i + 1) (drop_bit 2 selector) (values(i := 0)) c
         else if selector AND 3 = 1 then
           (let (combinedChar, c1) = readByte inp c in
            readTag8_4S16_v1_loop inp (i + 2) (drop_bit 2 (drop_bit 2 selector))
              (values(i := signExtend4Bit (combinedChar AND 15),
                      i + 1 := signExtend4Bit (drop_bit 4 combinedChar))) c1)
         else if selector AND 3 = 2 then
           (let (b, c1) = readByte inp c in
            readTag8_4S16_v1_loop inp (i + 1) (drop_bit 2 selector) (values(i := scast b)) c1)
         else
           (let (char1, c1) = readByte inp c; (char2, c2) = readByte inp c1 in
            readTag8_4S16_v1_loop inp (i + 1) (drop_bit 2 selector)
              (values(i := scast ((ucast char1 OR push_bit 8 (ucast char2)) :: 16 word))) c2))
      else (values, c))"
  by pat_completeness auto
termination
  by (relation "measure (\<lambda>(inp, i, selector, values, c). 4 - i)") auto

declare readTag8_4S16_v1_loop.simps [simp del]

definition readTag8_4S16_v1 :: "u8 list \<Rightarrow> lanes \<Rightarrow> logCursor \<Rightarrow> lanes \<times> logCursor" where
  "readTag8_4S16_v1 inp values c =
     (let (selector, c0) = readByte inp c in readTag8_4S16_v1_loop inp 0 selector values c0)"

text \<open>
  \<^verbatim>\<open>readTag8_4S16_v2\<close>: the same selector, the payload packed on nibble boundaries through
  the half-byte \<^verbatim>\<open>buffer\<close>. The first argument counts the iterations left. The source leaves
  \<^verbatim>\<open>buffer\<close> undefined at first and reads it only while \<^verbatim>\<open>nibbleIndex\<close> is 1, after a
  4-bit lane has set it.
\<close>

fun readTag8_4S16_v2_loop ::
  "u8 list \<Rightarrow> nat \<Rightarrow> nat \<Rightarrow> u8 \<Rightarrow> u8 \<Rightarrow> nat \<Rightarrow> lanes \<Rightarrow> logCursor \<Rightarrow> lanes \<times> logCursor" where
  "readTag8_4S16_v2_loop inp 0 i selector buffer nibbleIndex values c = (values, c)"
| "readTag8_4S16_v2_loop inp (Suc k) i selector buffer nibbleIndex values c =
     (if selector AND 3 = 0 then
        readTag8_4S16_v2_loop inp k (i + 1) (drop_bit 2 selector) buffer nibbleIndex
          (values(i := 0)) c
      else if selector AND 3 = 1 then
        (if nibbleIndex = 0 then
           (let (buffer', c1) = readByte inp c in
            readTag8_4S16_v2_loop inp k (i + 1) (drop_bit 2 selector) buffer' 1
              (values(i := signExtend4Bit (drop_bit 4 buffer'))) c1)
         else
           readTag8_4S16_v2_loop inp k (i + 1) (drop_bit 2 selector) buffer 0
             (values(i := signExtend4Bit (buffer AND 15))) c)
      else if selector AND 3 = 2 then
        (if nibbleIndex = 0 then
           (let (b, c1) = readByte inp c in
            readTag8_4S16_v2_loop inp k (i + 1) (drop_bit 2 selector) buffer nibbleIndex
              (values(i := scast b)) c1)
         else
           (let (buffer', c1) = readByte inp c;
                char1 = push_bit 4 buffer OR drop_bit 4 buffer' in
            readTag8_4S16_v2_loop inp k (i + 1) (drop_bit 2 selector) buffer' nibbleIndex
              (values(i := scast char1)) c1))
      else
        (if nibbleIndex = 0 then
           (let (char1, c1) = readByte inp c; (char2, c2) = readByte inp c1 in
            readTag8_4S16_v2_loop inp k (i + 1) (drop_bit 2 selector) buffer nibbleIndex
              (values(i := scast ((push_bit 8 (ucast char1) OR ucast char2) :: 16 word))) c2)
         else
           (let (char1, c1) = readByte inp c; (char2, c2) = readByte inp c1 in
            readTag8_4S16_v2_loop inp k (i + 1) (drop_bit 2 selector) char2 nibbleIndex
              (values(i := scast ((push_bit 12 (ucast buffer) OR push_bit 4 (ucast char1)
                                     OR ucast (drop_bit 4 char2)) :: 16 word))) c2)))"

definition readTag8_4S16_v2 :: "u8 list \<Rightarrow> lanes \<Rightarrow> logCursor \<Rightarrow> lanes \<times> logCursor" where
  "readTag8_4S16_v2 inp values c =
     (let (selector, c0) = readByte inp c in
      readTag8_4S16_v2_loop inp 4 0 selector 0 0 values c0)"

text \<open>\<^verbatim>\<open>readTag8_8SVB\<close>: one signed varint, or a header byte whose bits select the varints.\<close>

fun readTag8_8SVB_loop :: "u8 list \<Rightarrow> nat \<Rightarrow> nat \<Rightarrow> u8 \<Rightarrow> lanes \<Rightarrow> logCursor \<Rightarrow> lanes \<times> logCursor" where
  "readTag8_8SVB_loop inp 0 i header values c = (values, c)"
| "readTag8_8SVB_loop inp (Suc k) i header values c =
     (if header AND 1 \<noteq> 0 then
        (let (v, c1) = readSignedVB inp c in
         readTag8_8SVB_loop inp k (i + 1) (drop_bit 1 header) (values(i := v)) c1)
      else readTag8_8SVB_loop inp k (i + 1) (drop_bit 1 header) (values(i := 0)) c)"

definition readTag8_8SVB :: "u8 list \<Rightarrow> lanes \<Rightarrow> nat \<Rightarrow> logCursor \<Rightarrow> lanes \<times> logCursor" where
  "readTag8_8SVB inp values valueCount c =
     (if valueCount = 1 then
        (let (v, c1) = readSignedVB inp c in (values(0 := v), c1))
      else
        (let (header, c1) = readByte inp c in readTag8_8SVB_loop inp 8 0 header values c1))"

section \<open>The data model\<close>

text \<open>
  \<^verbatim>\<open>parser.h\<close> is not among the sources, so the declarations of \<^verbatim>\<open>flightLog_t\<close>, of the
  statistics and of the enumerations are read off their uses in \<^verbatim>\<open>parser.c\<close>:
  \<^item> the enumerations are datatypes: a frame definition holds the predictor and the
    encoding each \<^verbatim>\<open>int\<close> of the header denotes, and every other number is kept as
    unsupported (the \<^verbatim>\<open>default:\<close> branches);
  \<^item> \<^verbatim>\<open>frameIntervalI\<close>, \<^verbatim>\<open>frameIntervalPNum\<close>, \<^verbatim>\<open>frameIntervalPDenom\<close>, \<^verbatim>\<open>vbatscale\<close> and
    \<^verbatim>\<open>vbatmaxcellvoltage\<close> enter arithmetic whose result depends on their declaration:
    each is the 32 bits it holds, and its declaration is a parameter (\<open>parserConsts\<close>);
  \<^item> \<^verbatim>\<open>minthrottle\<close> and \<^verbatim>\<open>vbatref\<close> are only added to a 32-bit value or passed as
    \<^verbatim>\<open>uint16_t\<close>, which keeps the low bits whatever the declaration: they are an integer
    and a natural number; the indices of the named fields are \<^verbatim>\<open>int\<close> (\<^verbatim>\<open>parser.c\<close>);
  \<^item> the counters of the statistics are natural numbers that do not wrap; the extremes
    of a field are integers wide enough for a signed and for an unsigned 32-bit value;
  \<^item> an array of \<^verbatim>\<open>FLIGHT_LOG_MAX_FIELDS\<close> elements is a function from the index, and the
    field counts are assumed to stay within the capacity \<^verbatim>\<open>parser.c\<close> never checks.
\<close>

datatype FlightLogFieldPredictor =
    FLIGHT_LOG_FIELD_PREDICTOR_0
  | FLIGHT_LOG_FIELD_PREDICTOR_PREVIOUS
  | FLIGHT_LOG_FIELD_PREDICTOR_STRAIGHT_LINE
  | FLIGHT_LOG_FIELD_PREDICTOR_AVERAGE_2
  | FLIGHT_LOG_FIELD_PREDICTOR_MINTHROTTLE
  | FLIGHT_LOG_FIELD_PREDICTOR_MOTOR_0
  | FLIGHT_LOG_FIELD_PREDICTOR_INC
  | FLIGHT_LOG_FIELD_PREDICTOR_HOME_COORD
  | FLIGHT_LOG_FIELD_PREDICTOR_1500
  | FLIGHT_LOG_FIELD_PREDICTOR_VBATREF
  | FLIGHT_LOG_FIELD_PREDICTOR_HOME_COORD_1
  | FLIGHT_LOG_FIELD_PREDICTOR_UNSUPPORTED int

datatype FlightLogFieldEncoding =
    FLIGHT_LOG_FIELD_ENCODING_SIGNED_VB
  | FLIGHT_LOG_FIELD_ENCODING_UNSIGNED_VB
  | FLIGHT_LOG_FIELD_ENCODING_NEG_14BIT
  | FLIGHT_LOG_FIELD_ENCODING_TAG8_4S16
  | FLIGHT_LOG_FIELD_ENCODING_TAG2_3S32
  | FLIGHT_LOG_FIELD_ENCODING_TAG8_8SVB
  | FLIGHT_LOG_FIELD_ENCODING_NULL
  | FLIGHT_LOG_FIELD_ENCODING_UNSUPPORTED int

record flightLogFrameDefs =
  predictor :: "nat \<Rightarrow> FlightLogFieldPredictor"
  encoding :: "nat \<Rightarrow> FlightLogFieldEncoding"

text \<open>The event slot. \<open>FLIGHT_LOG_EVENT_INVALID\<close> is the value \<^verbatim>\<open>-1\<close> of the source.\<close>

datatype FlightLogEvent =
    FLIGHT_LOG_EVENT_SYNC_BEEP
  | FLIGHT_LOG_EVENT_AUTOTUNE_CYCLE_START
  | FLIGHT_LOG_EVENT_AUTOTUNE_CYCLE_RESULT
  | FLIGHT_LOG_EVENT_INVALID

datatype flightLogEventData =
    noEventData
  | syncBeep u32
  | autotuneCycleStart u8 u8 u8 u8 u8
  | autotuneCycleResult u8 u8 u8 u8

record flightLogEvent_t =
  event :: FlightLogEvent
  data :: flightLogEventData

text \<open>
  What \<^verbatim>\<open>parser.h\<close> fixes and the sources do not give is a parameter: the longest frame
  accepted, the event kind each byte denotes (the \<^verbatim>\<open>case\<close> labels of \<^verbatim>\<open>parseEventFrame\<close>),
  and the type in which C computes with the fields of \<^verbatim>\<open>flightLog_t\<close> that enter
  arithmetic. After the integer promotions that type is \<^verbatim>\<open>int\<close> (for a field declared
  \<^verbatim>\<open>int\<close> or narrower) or \<^verbatim>\<open>unsigned int\<close>; the three interval fields are taken to share
  one declaration. A field holds 32 bits, \<open>valueOf\<close> reads them as the declaration says.
  Where a signed sum or product leaves the range of \<^verbatim>\<open>int\<close>, which ISO C leaves
  undefined, the model keeps the low 32 bits, as the compiled code does.
\<close>

datatype cIntType = C_int | C_unsigned_int

fun valueOf :: "cIntType \<Rightarrow> 32 word \<Rightarrow> int" where
  "valueOf C_int w = sint w"
| "valueOf C_unsigned_int w = uint w"

record parserConsts =
  FLIGHT_LOG_MAX_FRAME_LENGTH :: nat
  eventOfByte :: "u8 \<Rightarrow> FlightLogEvent option"
  intervalType :: cIntType
  vbatscaleType :: cIntType
  vbatmaxcellvoltageType :: cIntType

text \<open>The frame kinds: the table \<^verbatim>\<open>frameTypes\<close> and its lookup.\<close>

datatype flightLogFrameType = IntraFrame | InterFrame | GPSFrame | GPSHomeFrame | EventFrame

fun marker :: "flightLogFrameType \<Rightarrow> u8" where
  "marker IntraFrame = 0x49"
| "marker InterFrame = 0x50"
| "marker GPSFrame = 0x47"
| "marker GPSHomeFrame = 0x48"
| "marker EventFrame = 0x45"

definition frameTypes :: "flightLogFrameType list" where
  "frameTypes = [IntraFrame, InterFrame, GPSFrame, GPSHomeFrame, EventFrame]"

definition getFrameType :: "u8 \<Rightarrow> flightLogFrameType option" where
  "getFrameType c = find (\<lambda>t. marker t = c) frameTypes"

text \<open>
  Statistics. The counters are natural numbers; the field extremes are integers wide
  enough for a signed and for an unsigned 32-bit value.
\<close>

record flightLogFrameStatistics =
  bytes :: nat
  sizeCount :: "nat \<Rightarrow> nat"
  validCount :: nat
  corruptCount :: nat
  desyncCount :: nat

record flightLogFieldStatistics =
  min_f :: int
  max_f :: int

record flightLogStatistics =
  totalBytes :: nat
  totalCorruptFrames :: nat
  intentionallyAbsentIterations :: nat
  frame :: "u8 \<Rightarrow> flightLogFrameStatistics"
  field :: "nat \<Rightarrow> flightLogFieldStatistics"

text \<open>
  What the callbacks were called with, in order. The callee sees the field vector through
  the pointer and the field count: the record holds those values, \<open>None\<close> for the null
  pointer.
\<close>

datatype callback =
    FrameReady bool "u32 list option" u8 nat int int
  | EventReady flightLogEvent_t
  | MetadataReady

text \<open>
  A record of fields is an array of \<^verbatim>\<open>FLIGHT_LOG_MAX_FIELDS\<close> 32-bit values, a function from
  the position. The history ring has three of them; \<open>mainHistory0\<close> is the slot
  \<^verbatim>\<open>mainHistory[0]\<close> points to, \<open>mainHistory1\<close> and \<open>mainHistory2\<close> are \<open>None\<close> for the null
  pointer. \<open>logStart\<close> is the offset of the session in the file (\<^verbatim>\<open>logStart - logData\<close>),
  \<open>cur\<close> the read position in the session and the end-of-input flag.
\<close>

type_synonym frameBuf = "nat \<Rightarrow> u32"

record flightLog =
  stats :: flightLogStatistics
  frameIntervalI :: u32
  frameIntervalPNum :: u32
  frameIntervalPDenom :: u32
  mainFieldSigned :: "nat \<Rightarrow> int"
  mainFieldCount :: nat
  gpsFieldCount :: nat
  gpsHomeFieldCount :: nat
  minthrottle :: int
  maxthrottle :: int
  vbatref :: nat
  vbatscale :: u32
  vbatmincellvoltage :: nat
  vbatwarningcellvoltage :: nat
  vbatmaxcellvoltage :: u32
  frameDefs :: "u8 \<Rightarrow> flightLogFrameDefs"
  dataVersion :: int
  motor0Index :: int
  home0Index :: int
  home1Index :: int
  blackboxHistoryRing :: "nat \<Rightarrow> frameBuf"
  mainHistory0 :: nat
  mainHistory1 :: "nat option"
  mainHistory2 :: "nat option"
  mainStreamIsValid :: bool
  gpsHomeHistory :: "nat \<Rightarrow> frameBuf"
  gpsHomeIsValid :: bool
  lastEvent :: flightLogEvent_t
  lastGPS :: frameBuf
  onMetadataReady :: bool
  onFrameReady :: bool
  onEvent :: bool
  logStart :: nat
  cur :: logCursor
  calls :: "callback list"

text \<open>
  How a call ends: it returns, or the process ends (\<^verbatim>\<open>exit(-1)\<close>, a null pointer read, a
  division by zero), or it never returns.
\<close>

datatype fault =
    EXIT_UNSUPPORTED_PREDICTOR
  | EXIT_UNSUPPORTED_ENCODING
  | EXIT_MOTOR0_UNDEFINED
  | EXIT_GPS_HOME_UNDEFINED
  | NULL_POINTER_READ
  | DIVISION_BY_ZERO
  | DIVISION_OVERFLOW

datatype 'a outcome = Returns 'a | Aborts fault | Diverges

text \<open>
  Modelled from the spec: the two field positions are constants of \<^verbatim>\<open>parser.h\<close>. The spec:
  "Field position 0 is the iteration counter; position 1 is the timestamp in
  microseconds."
\<close>

definition FLIGHT_LOG_FIELD_INDEX_ITERATION :: nat where
  "FLIGHT_LOG_FIELD_INDEX_ITERATION = 0"

definition FLIGHT_LOG_FIELD_INDEX_TIME :: nat where
  "FLIGHT_LOG_FIELD_INDEX_TIME = 1"

section \<open>The iteration-rate filter\<close>

text \<open>
  \<^verbatim>\<open>shouldHaveFrame\<close>: \<^verbatim>\<open>(frameIndex % I + PNum - 1) % PDenom < PNum\<close>, the index an
  \<^verbatim>\<open>int32_t\<close>. With \<^verbatim>\<open>int\<close> fields \<^verbatim>\<open>%\<close> truncates towards zero (\<open>smod\<close>) and the comparison
  is signed; with \<^verbatim>\<open>unsigned int\<close> fields the index is converted, the sum wraps, and
  remainder and comparison are unsigned. A zero divisor ends the process, and so does
  the remainder of the least \<^verbatim>\<open>int\<close> by \<open>-1\<close>.
\<close>

definition shouldHaveFrame :: "parserConsts \<Rightarrow> flightLog \<Rightarrow> u32 \<Rightarrow> fault + bool" where
  "shouldHaveFrame K log frameIndex =
     (case intervalType K of
        C_int \<Rightarrow>
          (if frameIntervalI log = 0 then Inl DIVISION_BY_ZERO
           else if sint frameIndex = - (2 ^ 31) \<and> sint (frameIntervalI log) = - 1
             then Inl DIVISION_OVERFLOW
           else
             (let s = (word_of_int (sint frameIndex smod sint (frameIntervalI log)) :: u32)
                        + frameIntervalPNum log - 1
              in
              if frameIntervalPDenom log = 0 then Inl DIVISION_BY_ZERO
              else if sint s = - (2 ^ 31) \<and> sint (frameIntervalPDenom log) = - 1
                then Inl DIVISION_OVERFLOW
              else Inr (sint s smod sint (frameIntervalPDenom log)
                          < sint (frameIntervalPNum log))))
      | C_unsigned_int \<Rightarrow>
          (if frameIntervalI log = 0 \<or> frameIntervalPDenom log = 0 then Inl DIVISION_BY_ZERO
           else Inr ((frameIndex mod frameIntervalI log + frameIntervalPNum log - 1)
                       mod frameIntervalPDenom log < frameIntervalPNum log)))"

text \<open>
  The loop of \<^verbatim>\<open>parseIntraframe\<close> and \<^verbatim>\<open>parseInterframe\<close> that counts the iterations left
  out on purpose: \<^verbatim>\<open>for (frameIndex = ...; !shouldHaveFrame(log, frameIndex); frameIndex++)
  skippedFrames++\<close>. Nothing bounds it, so not returning is the value \<open>None\<close>.
\<close>

partial_function (option) countSkippedFrames :: "parserConsts \<Rightarrow> flightLog \<Rightarrow> u32 \<Rightarrow> nat \<Rightarrow> (fault + nat) option" where
  [code]: "countSkippedFrames K log frameIndex skippedFrames =
     (case shouldHaveFrame K log frameIndex of
        Inl e \<Rightarrow> Some (Inl e)
      | Inr present \<Rightarrow>
          if present then Some (Inr skippedFrames)
          else countSkippedFrames K log (frameIndex + 1) (skippedFrames + 1))"

section \<open>The predictor engine\<close>

text \<open>
  \<^verbatim>\<open>applyPrediction\<close>. \<open>current\<close> is the record being decoded, \<open>previous\<close> and \<open>previous2\<close>
  the two records before it (\<open>None\<close> for a null pointer). All sums are unsigned 32-bit.
  \<^verbatim>\<open>FLIGHT_LOG_FIELD_PREDICTOR_INC\<close> has no case of its own in the \<^verbatim>\<open>switch\<close>.
\<close>

definition applyPrediction ::
  "flightLog \<Rightarrow> nat \<Rightarrow> FlightLogFieldPredictor \<Rightarrow> u32 \<Rightarrow> frameBuf \<Rightarrow> frameBuf option
     \<Rightarrow> frameBuf option \<Rightarrow> fault + u32" where
  "applyPrediction log fieldIndex pred v current previous previous2 =
     (case pred of
        FLIGHT_LOG_FIELD_PREDICTOR_0 \<Rightarrow> Inr v
      | FLIGHT_LOG_FIELD_PREDICTOR_MINTHROTTLE \<Rightarrow> Inr (v + word_of_int (minthrottle log))
      | FLIGHT_LOG_FIELD_PREDICTOR_1500 \<Rightarrow> Inr (v + 1500)
      | FLIGHT_LOG_FIELD_PREDICTOR_MOTOR_0 \<Rightarrow>
          if motor0Index log < 0 then Inl EXIT_MOTOR0_UNDEFINED
          else Inr (v + current (nat (motor0Index log)))
      | FLIGHT_LOG_FIELD_PREDICTOR_VBATREF \<Rightarrow> Inr (v + of_nat (vbatref log))
      | FLIGHT_LOG_FIELD_PREDICTOR_PREVIOUS \<Rightarrow>
          (case previous of
             None \<Rightarrow> Inr v
           | Some p \<Rightarrow> Inr (v + p fieldIndex))
      | FLIGHT_LOG_FIELD_PREDICTOR_STRAIGHT_LINE \<Rightarrow>
          (case previous of
             None \<Rightarrow> Inr v
           | Some p \<Rightarrow>
               (case previous2 of
                  None \<Rightarrow> Inl NULL_POINTER_READ
                | Some p2 \<Rightarrow> Inr (v + (2 * p fieldIndex - p2 fieldIndex))))
      | FLIGHT_LOG_FIELD_PREDICTOR_AVERAGE_2 \<Rightarrow>
          (case previous of
             None \<Rightarrow> Inr v
           | Some p \<Rightarrow>
               (case previous2 of
                  None \<Rightarrow> Inl NULL_POINTER_READ
                | Some p2 \<Rightarrow>
                    if mainFieldSigned log fieldIndex \<noteq> 0
                    then Inr (v + word_of_int (sint (p fieldIndex + p2 fieldIndex) sdiv 2))
                    else Inr (v + (p fieldIndex + p2 fieldIndex) div 2)))
      | FLIGHT_LOG_FIELD_PREDICTOR_HOME_COORD \<Rightarrow>
          if home0Index log < 0 then Inl EXIT_GPS_HOME_UNDEFINED
          else Inr (v + gpsHomeHistory log 1 (nat (home0Index log)))
      | FLIGHT_LOG_FIELD_PREDICTOR_HOME_COORD_1 \<Rightarrow>
          if home1Index log < 1 then Inl EXIT_GPS_HOME_UNDEFINED
          else Inr (v + gpsHomeHistory log 1 (nat (home1Index log)))
      | FLIGHT_LOG_FIELD_PREDICTOR_INC \<Rightarrow> Inl EXIT_UNSUPPORTED_PREDICTOR
      | FLIGHT_LOG_FIELD_PREDICTOR_UNSUPPORTED n \<Rightarrow> Inl EXIT_UNSUPPORTED_PREDICTOR)"

section \<open>Decoding one frame\<close>

text \<open>
  \<^verbatim>\<open>for (j = 0; j < n; j++, i++) frame[i] = applyPrediction(log, i, raw ? ... : predictor[i],
  values[j], frame, previous, previous2)\<close>: the lanes of a group, in order, each seeing the
  fields stored before it.
\<close>

fun applyPredictions ::
  "flightLog \<Rightarrow> (nat \<Rightarrow> FlightLogFieldPredictor) \<Rightarrow> bool \<Rightarrow> lanes \<Rightarrow> frameBuf option
     \<Rightarrow> frameBuf option \<Rightarrow> nat \<Rightarrow> nat \<Rightarrow> nat \<Rightarrow> frameBuf \<Rightarrow> fault + frameBuf" where
  "applyPredictions log preds raw values previous previous2 0 j i frm = Inr frm"
| "applyPredictions log preds raw values previous previous2 (Suc n) j i frm =
     (case applyPrediction log i (if raw then FLIGHT_LOG_FIELD_PREDICTOR_0 else preds i)
             (values j) frm previous previous2 of
        Inl e \<Rightarrow> Inl e
      | Inr v \<Rightarrow>
          applyPredictions log preds raw values previous previous2 n (j + 1) (i + 1)
            (frm(i := v)))"

text \<open>
  The scan for the end of a \<^verbatim>\<open>TAG8_8SVB\<close> group: \<^verbatim>\<open>for (j = i + 1; j < i + 8 && j <
  log->mainFieldCount; j++) if (encoding[j] != ...TAG8_8SVB) break;\<close>. It is bounded by the
  count of the main fields, whatever the kind of the frame.
\<close>

function tag8_8SVB_groupEnd :: "(nat \<Rightarrow> FlightLogFieldEncoding) \<Rightarrow> nat \<Rightarrow> nat \<Rightarrow> nat \<Rightarrow> nat" where
  "tag8_8SVB_groupEnd encs mainCount i j =
     (if j < i + 8 \<and> j < mainCount then
        (if encs j \<noteq> FLIGHT_LOG_FIELD_ENCODING_TAG8_8SVB then j
         else tag8_8SVB_groupEnd encs mainCount i (j + 1))
      else j)"
  by pat_completeness auto
termination
  by (relation "measure (\<lambda>(encs, mainCount, i, j). i + 8 - j)") auto

declare tag8_8SVB_groupEnd.simps [simp del]

text \<open>
  One round of the \<^verbatim>\<open>while (i < fieldCount)\<close> loop of \<^verbatim>\<open>parseFrame\<close>: the index after it,
  the cursor and the record. The local \<^verbatim>\<open>values[8]\<close> starts undefined in the source; every
  lane that is used is written first.
\<close>

definition parseField ::
  "u8 list \<Rightarrow> flightLog \<Rightarrow> u8 \<Rightarrow> frameBuf option \<Rightarrow> frameBuf option \<Rightarrow> nat \<Rightarrow> bool \<Rightarrow> nat
     \<Rightarrow> logCursor \<Rightarrow> frameBuf \<Rightarrow> fault + nat \<times> logCursor \<times> frameBuf" where
  "parseField inp log frameType previous previous2 skippedFrames raw i c frm =
     (let preds = predictor (frameDefs log frameType);
          encs = encoding (frameDefs log frameType);
          single = (\<lambda>(v, c').
            case applyPrediction log i (if raw then FLIGHT_LOG_FIELD_PREDICTOR_0 else preds i)
                   v frm previous previous2 of
              Inl e \<Rightarrow> Inl e
            | Inr x \<Rightarrow> Inr (i + 1, c', frm(i := x)));
          group = (\<lambda>n (values, c').
            case applyPredictions log preds raw values previous previous2 n 0 i frm of
              Inl e \<Rightarrow> Inl e
            | Inr frm' \<Rightarrow> Inr (i + n, c', frm'))
      in
      if preds i = FLIGHT_LOG_FIELD_PREDICTOR_INC then
        Inr (i + 1, c,
             frm(i := of_nat skippedFrames + 1 + (case previous of None \<Rightarrow> 0 | Some p \<Rightarrow> p i)))
      else
        (case encs i of
           FLIGHT_LOG_FIELD_ENCODING_SIGNED_VB \<Rightarrow> single (readSignedVB inp c)
         | FLIGHT_LOG_FIELD_ENCODING_UNSIGNED_VB \<Rightarrow> single (readUnsignedVB inp c)
         | FLIGHT_LOG_FIELD_ENCODING_NEG_14BIT \<Rightarrow>
             single (let (v, c') = readUnsignedVB inp c in (- signExtend14Bit v, c'))
         | FLIGHT_LOG_FIELD_ENCODING_TAG8_4S16 \<Rightarrow>
             group 4 (if dataVersion log < 2 then readTag8_4S16_v1 inp (\<lambda>_. 0) c
                      else readTag8_4S16_v2 inp (\<lambda>_. 0) c)
         | FLIGHT_LOG_FIELD_ENCODING_TAG2_3S32 \<Rightarrow> group 3 (readTag2_3S32 inp (\<lambda>_. 0) c)
         | FLIGHT_LOG_FIELD_ENCODING_TAG8_8SVB \<Rightarrow>
             (let groupCount = tag8_8SVB_groupEnd encs (mainFieldCount log) i (i + 1) - i in
              group groupCount (readTag8_8SVB inp (\<lambda>_. 0) groupCount c))
         | FLIGHT_LOG_FIELD_ENCODING_NULL \<Rightarrow> single (0, c)
         | FLIGHT_LOG_FIELD_ENCODING_UNSUPPORTED n \<Rightarrow> Inl EXIT_UNSUPPORTED_ENCODING))"

lemma tag8_8SVB_groupEnd_ge: "j \<le> tag8_8SVB_groupEnd encs mainCount i j"
proof (induction encs mainCount i j rule: tag8_8SVB_groupEnd.induct)
  case (1 encs mainCount i j)
  show ?case
  proof (cases "j < i + 8 \<and> j < mainCount \<and> encs j = FLIGHT_LOG_FIELD_ENCODING_TAG8_8SVB")
    case True
    then have "j + 1 \<le> tag8_8SVB_groupEnd encs mainCount i (j + 1)"
      using "1.IH" by simp
    with True show ?thesis by (subst tag8_8SVB_groupEnd.simps) simp
  next
    case False
    then show ?thesis by (subst tag8_8SVB_groupEnd.simps) auto
  qed
qed

lemma parseField_advances:
  "parseField inp log frameType previous previous2 skippedFrames raw i c frm = Inr (i', c', frm')
     \<Longrightarrow> i < i'"
  using tag8_8SVB_groupEnd_ge [of "i + 1" "encoding (frameDefs log frameType)" "mainFieldCount log" i]
  by (auto simp: parseField_def Let_def
           split: if_splits FlightLogFieldEncoding.splits sum.splits prod.splits)

function parseFrame_loop ::
  "u8 list \<Rightarrow> flightLog \<Rightarrow> u8 \<Rightarrow> frameBuf option \<Rightarrow> frameBuf option \<Rightarrow> nat \<Rightarrow> nat \<Rightarrow> bool \<Rightarrow> nat
     \<Rightarrow> logCursor \<Rightarrow> frameBuf \<Rightarrow> fault + logCursor \<times> frameBuf" where
  "parseFrame_loop inp log frameType previous previous2 fieldCount skippedFrames raw i c frm =
     (if i < fieldCount then
        (case parseField inp log frameType previous previous2 skippedFrames raw i c frm of
           Inl e \<Rightarrow> Inl e
         | Inr (i', c', frm') \<Rightarrow>
             parseFrame_loop inp log frameType previous previous2 fieldCount skippedFrames raw
               i' c' frm')
      else Inr (c, frm))"
  by pat_completeness auto
termination parseFrame_loop
proof (relation "measure (\<lambda>(inp, log, frameType, previous, previous2, fieldCount,
                             skippedFrames, raw, i, c, frm). fieldCount - i)")
  show "wf (measure (\<lambda>(inp, log, frameType, previous, previous2, fieldCount,
                        skippedFrames, raw, i, c, frm). fieldCount - i))"
    by simp
next
  fix inp log frameType previous previous2 fieldCount skippedFrames raw i c frm x2 x y xa ya
  assume lt: "i < fieldCount"
    and r: "parseField inp log frameType previous previous2 skippedFrames raw i c frm = Inr x2"
    and x2: "(x, y) = x2" and y: "(xa, ya) = y"
  from r x2 y have "i < x" using parseField_advances [of inp log frameType previous previous2 skippedFrames raw i c frm x xa ya]
    by simp
  with lt show "((inp, log, frameType, previous, previous2, fieldCount, skippedFrames, raw, x, xa, ya),
          (inp, log, frameType, previous, previous2, fieldCount, skippedFrames, raw, i, c, frm))
        \<in> measure (\<lambda>(inp, log, frameType, previous, previous2, fieldCount,
                       skippedFrames, raw, i, c, frm). fieldCount - i)"
    by simp
qed

declare parseFrame_loop.simps [simp del]

definition parseFrame ::
  "u8 list \<Rightarrow> flightLog \<Rightarrow> u8 \<Rightarrow> frameBuf \<Rightarrow> frameBuf option \<Rightarrow> frameBuf option \<Rightarrow> nat \<Rightarrow> nat
     \<Rightarrow> bool \<Rightarrow> logCursor \<Rightarrow> fault + logCursor \<times> frameBuf" where
  "parseFrame inp log frameType frm previous previous2 fieldCount skippedFrames raw c =
     parseFrame_loop inp log frameType previous previous2 fieldCount skippedFrames raw 0 c frm"

section \<open>Parsing each kind of frame\<close>

text \<open>
  The count of the iterations left out since the previous record, when there is one. A
  zero divisor in the filter ends the process; a filter that never holds keeps the loop
  running.
\<close>

definition skippedSince :: "parserConsts \<Rightarrow> flightLog \<Rightarrow> frameBuf option \<Rightarrow> nat outcome" where
  "skippedSince K log previous =
     (case previous of
        None \<Rightarrow> Returns 0
      | Some p \<Rightarrow>
          (case countSkippedFrames K log (p FLIGHT_LOG_FIELD_INDEX_ITERATION + 1) 0 of
             None \<Rightarrow> Diverges
           | Some (Inl e) \<Rightarrow> Aborts e
           | Some (Inr n) \<Rightarrow> Returns n))"

definition parseIntraframe :: "parserConsts \<Rightarrow> u8 list \<Rightarrow> flightLog \<Rightarrow> bool \<Rightarrow> flightLog outcome" where
  "parseIntraframe K inp log raw =
     (let current = blackboxHistoryRing log (mainHistory0 log);
          previous = map_option (blackboxHistoryRing log) (mainHistory1 log)
      in
      case skippedSince K log previous of
        Diverges \<Rightarrow> Diverges
      | Aborts e \<Rightarrow> Aborts e
      | Returns skippedFrames \<Rightarrow>
          (let log1 =
                 (if previous \<noteq> None then
                    log\<lparr>stats := (stats log)\<lparr>intentionallyAbsentIterations :=
                            intentionallyAbsentIterations (stats log) + skippedFrames\<rparr>\<rparr>
                  else log)
           in
           case parseFrame inp log1 0x49 current previous None (mainFieldCount log1)
                  skippedFrames raw (cur log1) of
             Inl e \<Rightarrow> Aborts e
           | Inr (c', frm') \<Rightarrow>
               Returns (log1\<lparr>cur := c',
                              blackboxHistoryRing :=
                                (blackboxHistoryRing log1)(mainHistory0 log1 := frm')\<rparr>)))"

definition parseInterframe :: "parserConsts \<Rightarrow> u8 list \<Rightarrow> flightLog \<Rightarrow> bool \<Rightarrow> flightLog outcome" where
  "parseInterframe K inp log raw =
     (let current = blackboxHistoryRing log (mainHistory0 log);
          previous = map_option (blackboxHistoryRing log) (mainHistory1 log);
          previous2 = map_option (blackboxHistoryRing log) (mainHistory2 log)
      in
      case skippedSince K log previous of
        Diverges \<Rightarrow> Diverges
      | Aborts e \<Rightarrow> Aborts e
      | Returns skippedFrames \<Rightarrow>
          (let log1 =
                 log\<lparr>stats := (stats log)\<lparr>intentionallyAbsentIterations :=
                         intentionallyAbsentIterations (stats log) + skippedFrames\<rparr>\<rparr>
           in
           case parseFrame inp log1 0x50 current previous previous2 (mainFieldCount log1)
                  skippedFrames raw (cur log1) of
             Inl e \<Rightarrow> Aborts e
           | Inr (c', frm') \<Rightarrow>
               Returns (log1\<lparr>cur := c',
                              blackboxHistoryRing :=
                                (blackboxHistoryRing log1)(mainHistory0 log1 := frm')\<rparr>)))"

definition parseGPSFrame :: "u8 list \<Rightarrow> flightLog \<Rightarrow> bool \<Rightarrow> flightLog outcome" where
  "parseGPSFrame inp log raw =
     (case parseFrame inp log 0x47 (lastGPS log) None None (gpsFieldCount log) 0 raw (cur log) of
        Inl e \<Rightarrow> Aborts e
      | Inr (c', frm') \<Rightarrow> Returns (log\<lparr>cur := c', lastGPS := frm'\<rparr>))"

definition parseGPSHomeFrame :: "u8 list \<Rightarrow> flightLog \<Rightarrow> bool \<Rightarrow> flightLog outcome" where
  "parseGPSHomeFrame inp log raw =
     (case parseFrame inp log 0x48 (gpsHomeHistory log 0) None None (gpsHomeFieldCount log) 0
             raw (cur log) of
        Inl e \<Rightarrow> Aborts e
      | Inr (c', frm') \<Rightarrow>
          Returns (log\<lparr>cur := c', gpsHomeHistory := (gpsHomeHistory log)(0 := frm')\<rparr>))"

text \<open>
  \<^verbatim>\<open>parseEventFrame\<close>: the kind byte, then the body of a known kind. The \<^verbatim>\<open>default:\<close> branch
  stores \<^verbatim>\<open>-1\<close> as the kind and leaves the data of the slot as they were.
\<close>

definition parseEventFrame :: "parserConsts \<Rightarrow> u8 list \<Rightarrow> flightLog \<Rightarrow> bool \<Rightarrow> flightLog outcome" where
  "parseEventFrame K inp log raw =
     (let (eventType, c0) = readByte inp (cur log) in
      case eventOfByte K eventType of
        Some FLIGHT_LOG_EVENT_SYNC_BEEP \<Rightarrow>
          (let (time, c1) = readUnsignedVB inp c0 in
           Returns (log\<lparr>cur := c1,
                          lastEvent := \<lparr>event = FLIGHT_LOG_EVENT_SYNC_BEEP, data = syncBeep time\<rparr>\<rparr>))
      | Some FLIGHT_LOG_EVENT_AUTOTUNE_CYCLE_START \<Rightarrow>
          (let (phase, c1) = readByte inp c0; (cycle, c2) = readByte inp c1;
               (p, c3) = readByte inp c2; (i, c4) = readByte inp c3;
               (d, c5) = readByte inp c4 in
           Returns (log\<lparr>cur := c5,
                          lastEvent := \<lparr>event = FLIGHT_LOG_EVENT_AUTOTUNE_CYCLE_START,
                                        data = autotuneCycleStart phase cycle p i d\<rparr>\<rparr>))
      | Some FLIGHT_LOG_EVENT_AUTOTUNE_CYCLE_RESULT \<Rightarrow>
          (let (overshot, c1) = readByte inp c0; (p, c2) = readByte inp c1;
               (i, c3) = readByte inp c2; (d, c4) = readByte inp c3 in
           Returns (log\<lparr>cur := c4,
                          lastEvent := \<lparr>event = FLIGHT_LOG_EVENT_AUTOTUNE_CYCLE_RESULT,
                                        data = autotuneCycleResult overshot p i d\<rparr>\<rparr>))
      | _ \<Rightarrow>
          Returns (log\<lparr>cur := c0,
                         lastEvent := (lastEvent log)\<lparr>event := FLIGHT_LOG_EVENT_INVALID\<rparr>\<rparr>))"

fun parse :: "parserConsts \<Rightarrow> flightLogFrameType \<Rightarrow> u8 list \<Rightarrow> flightLog \<Rightarrow> bool \<Rightarrow> flightLog outcome" where
  "parse K IntraFrame = parseIntraframe K"
| "parse K InterFrame = parseInterframe K"
| "parse K GPSFrame = parseGPSFrame"
| "parse K GPSHomeFrame = parseGPSHomeFrame"
| "parse K EventFrame = parseEventFrame K"

section \<open>Completing each kind of frame\<close>

text \<open>
  \<^verbatim>\<open>updateFieldStatistics\<close>: the first valid main frame sets the extremes of every field,
  the later ones widen them, signed or unsigned as the field is.
\<close>

definition updateFieldStatistics :: "flightLog \<Rightarrow> frameBuf \<Rightarrow> flightLog" where
  "updateFieldStatistics log frm =
     (let first = validCount (frame (stats log) 0x49) + validCount (frame (stats log) 0x50) \<le> 1;
          value_of = (\<lambda>i. if mainFieldSigned log i \<noteq> 0 then sint (frm i) else uint (frm i));
          upd = (\<lambda>i fs.
            fs(i := if first then \<lparr>min_f = value_of i, max_f = value_of i\<rparr>
                    else \<lparr>min_f = (if value_of i < min_f (fs i) then value_of i else min_f (fs i)),
                          max_f = (if value_of i > max_f (fs i) then value_of i else max_f (fs i))\<rparr>))
      in log\<lparr>stats := (stats log)\<lparr>field := fold upd [0..<mainFieldCount log] (field (stats log))\<rparr>\<rparr>)"

definition flightLoginvalidateStream :: "flightLog \<Rightarrow> flightLog" where
  "flightLoginvalidateStream log =
     log\<lparr>mainStreamIsValid := False, mainHistory1 := None, mainHistory2 := None\<rparr>"

text \<open>The call of \<^verbatim>\<open>onFrameReady\<close>, when the caller gave one.\<close>

definition callFrameReady ::
  "flightLog \<Rightarrow> bool \<Rightarrow> (frameBuf \<times> nat) option \<Rightarrow> u8 \<Rightarrow> nat \<Rightarrow> int \<Rightarrow> int \<Rightarrow> flightLog" where
  "callFrameReady log valid frm frameType fieldCount frameOffset frameSize =
     (if onFrameReady log then
        log\<lparr>calls := calls log @
               [FrameReady valid (map_option (\<lambda>(f, n). map f [0..<n]) frm) frameType fieldCount
                  frameOffset frameSize]\<rparr>
      else log)"

text \<open>The step of the ring: \<^verbatim>\<open>mainHistory[0] += FLIGHT_LOG_MAX_FIELDS\<close>, back to slot 0 after slot 2.\<close>

definition nextRingSlot :: "nat \<Rightarrow> nat" where
  "nextRingSlot k = (if k + 1 \<ge> 3 then 0 else k + 1)"

definition completeIntraframe :: "flightLog \<Rightarrow> u8 \<Rightarrow> nat \<Rightarrow> nat \<Rightarrow> bool \<Rightarrow> flightLog" where
  "completeIntraframe log frameType frameStart frameEnd raw =
     (let current = blackboxHistoryRing log (mainHistory0 log);
          log1 =
            (if raw \<or>
                (uint (current FLIGHT_LOG_FIELD_INDEX_ITERATION)
                    \<ge> max_f (field (stats log) FLIGHT_LOG_FIELD_INDEX_ITERATION)
                 \<and> uint (current FLIGHT_LOG_FIELD_INDEX_TIME)
                    \<ge> max_f (field (stats log) FLIGHT_LOG_FIELD_INDEX_TIME))
             then updateFieldStatistics (log\<lparr>mainStreamIsValid := True\<rparr>) current
             else flightLoginvalidateStream log);
          log2 = callFrameReady log1 (mainStreamIsValid log1)
                   (Some (blackboxHistoryRing log1 (mainHistory0 log1), mainFieldCount log1))
                   frameType (mainFieldCount log1)
                   (int (logStart log1) + int frameStart) (int frameEnd - int frameStart)
      in
      if mainStreamIsValid log2 then
        log2\<lparr>mainHistory1 := Some (mainHistory0 log2),
              mainHistory2 := Some (mainHistory0 log2),
              mainHistory0 := nextRingSlot (mainHistory0 log2)\<rparr>
      else log2)"

definition completeInterframe :: "flightLog \<Rightarrow> u8 \<Rightarrow> nat \<Rightarrow> nat \<Rightarrow> bool \<Rightarrow> flightLog" where
  "completeInterframe log frameType frameStart frameEnd raw =
     (let log1 =
            (if mainStreamIsValid log
             then updateFieldStatistics log (blackboxHistoryRing log (mainHistory0 log))
             else log\<lparr>stats := (stats log)\<lparr>frame := (frame (stats log))
                         (0x50 := (frame (stats log) 0x50)
                            \<lparr>desyncCount := desyncCount (frame (stats log) 0x50) + 1\<rparr>)\<rparr>\<rparr>);
          log2 = callFrameReady log1 (mainStreamIsValid log1)
                   (Some (blackboxHistoryRing log1 (mainHistory0 log1), mainFieldCount log1))
                   frameType (mainFieldCount log1)
                   (int (logStart log1) + int frameStart) (int frameEnd - int frameStart)
      in
      if mainStreamIsValid log2 then
        log2\<lparr>mainHistory2 := mainHistory1 log2,
              mainHistory1 := Some (mainHistory0 log2),
              mainHistory0 := nextRingSlot (mainHistory0 log2)\<rparr>
      else log2)"

definition completeEventFrame :: "flightLog \<Rightarrow> u8 \<Rightarrow> nat \<Rightarrow> nat \<Rightarrow> bool \<Rightarrow> flightLog" where
  "completeEventFrame log frameType frameStart frameEnd raw =
     (if onEvent log then log\<lparr>calls := calls log @ [EventReady (lastEvent log)]\<rparr> else log)"

definition completeGPSHomeFrame :: "flightLog \<Rightarrow> u8 \<Rightarrow> nat \<Rightarrow> nat \<Rightarrow> bool \<Rightarrow> flightLog" where
  "completeGPSHomeFrame log frameType frameStart frameEnd raw =
     (let log1 = log\<lparr>gpsHomeHistory := (gpsHomeHistory log)(1 := gpsHomeHistory log 0),
                     gpsHomeIsValid := True\<rparr>
      in callFrameReady log1 True (Some (gpsHomeHistory log1 1, gpsHomeFieldCount log1))
           frameType (gpsHomeFieldCount log1)
           (int (logStart log1) + int frameStart) (int frameEnd - int frameStart))"

definition completeGPSFrame :: "flightLog \<Rightarrow> u8 \<Rightarrow> nat \<Rightarrow> nat \<Rightarrow> bool \<Rightarrow> flightLog" where
  "completeGPSFrame log frameType frameStart frameEnd raw =
     callFrameReady log (gpsHomeIsValid log) (Some (lastGPS log, gpsFieldCount log))
       frameType (gpsFieldCount log)
       (int (logStart log) + int frameStart) (int frameEnd - int frameStart)"

fun complete :: "flightLogFrameType \<Rightarrow> flightLog \<Rightarrow> u8 \<Rightarrow> nat \<Rightarrow> nat \<Rightarrow> bool \<Rightarrow> flightLog" where
  "complete IntraFrame = completeIntraframe"
| "complete InterFrame = completeInterframe"
| "complete GPSFrame = completeGPSFrame"
| "complete GPSHomeFrame = completeGPSHomeFrame"
| "complete EventFrame = completeEventFrame"

section \<open>Battery utilities\<close>

text \<open>
  \<^verbatim>\<open>flightLogVbatToMillivolts\<close>: \<^verbatim>\<open>(vbat * 330 * log->vbatscale) / 0xFFF\<close>, the reading a
  \<^verbatim>\<open>uint16_t\<close> and the result an \<^verbatim>\<open>unsigned int\<close>. \<^verbatim>\<open>vbat * 330\<close> is an \<^verbatim>\<open>int\<close> that fits; the
  product with the scale is kept to 32 bits, and the division is signed (truncating) or
  unsigned as the scale is declared.
\<close>

definition flightLogVbatToMillivolts :: "parserConsts \<Rightarrow> flightLog \<Rightarrow> 16 word \<Rightarrow> u32" where
  "flightLogVbatToMillivolts K log vbat =
     (let product = (ucast vbat :: u32) * 330 * vbatscale log in
      case vbatscaleType K of
        C_int \<Rightarrow> word_of_int (sint product sdiv 4095)
      | C_unsigned_int \<Rightarrow> product div 0xFFF)"

text \<open>
  \<^verbatim>\<open>flightLogEstimateNumCells\<close>: \<^verbatim>\<open>log->vbatref\<close> is passed as \<^verbatim>\<open>uint16_t\<close>, the result divided
  by 100 (unsigned) and kept in an \<^verbatim>\<open>int\<close>, where it fits. The test
  \<^verbatim>\<open>refVoltage < i * log->vbatmaxcellvoltage\<close> is signed or unsigned as the cell voltage
  is declared, its product kept to 32 bits. The loop leaves \<open>i\<close> at 8 when no test holds.
\<close>

definition cellsSuffice :: "parserConsts \<Rightarrow> flightLog \<Rightarrow> u32 \<Rightarrow> nat \<Rightarrow> bool" where
  "cellsSuffice K log refVoltage i =
     (case vbatmaxcellvoltageType K of
        C_int \<Rightarrow> sint refVoltage < sint (of_nat i * vbatmaxcellvoltage log)
      | C_unsigned_int \<Rightarrow> refVoltage < of_nat i * vbatmaxcellvoltage log)"

function flightLogEstimateNumCells_loop :: "parserConsts \<Rightarrow> flightLog \<Rightarrow> u32 \<Rightarrow> nat \<Rightarrow> nat" where
  "flightLogEstimateNumCells_loop K log refVoltage i =
     (if i < 8 then
        (if cellsSuffice K log refVoltage i then i
         else flightLogEstimateNumCells_loop K log refVoltage (i + 1))
      else i)"
  by pat_completeness auto
termination
  by (relation "measure (\<lambda>(K, log, refVoltage, i). 8 - i)") auto

declare flightLogEstimateNumCells_loop.simps [simp del]

definition flightLogEstimateNumCells :: "parserConsts \<Rightarrow> flightLog \<Rightarrow> nat" where
  "flightLogEstimateNumCells K log =
     flightLogEstimateNumCells_loop K log
       (flightLogVbatToMillivolts K log (of_nat (vbatref log)) div 100) 1"

section \<open>The frame dispatcher\<close>

text \<open>
  The \<^verbatim>\<open>PARSER_STATE_DATA\<close> branch of the loop of \<^verbatim>\<open>flightLogParse\<close>. The loop is one frame
  behind: the byte just read (\<open>command\<close>) decides whether the frame before it was well
  formed. \<open>frameStart\<close> is the cursor right after the marker of that frame. The locals
  that live across rounds are a record; \<^verbatim>\<open>frameType\<close> and \<^verbatim>\<open>looksLikeFrameCompleted\<close> are
  set again in every round.
\<close>

record parseLocals =
  prematureEof :: bool
  frameStart :: nat
  lastFrameType :: "flightLogFrameType option"

datatype parseStep = Continue flightLog parseLocals | Stop "flightLog outcome"

text \<open>
  The second half of a round (from \<^verbatim>\<open>if (command == EOF) goto done;\<close>): the end of the
  parse, or the start of the next frame.
\<close>

definition startFrame ::
  "parserConsts \<Rightarrow> u8 list \<Rightarrow> bool \<Rightarrow> int \<Rightarrow> flightLog \<Rightarrow> parseLocals \<Rightarrow> parseStep" where
  "startFrame K inp raw command log loc =
     (if command = EOF then
        Stop (Returns (log\<lparr>stats := (stats log)\<lparr>totalBytes := length inp\<rparr>\<rparr>))
      else
        (let frameType = getFrameType (word_of_int command);
             loc1 = loc\<lparr>frameStart := logPos (cur log)\<rparr>
         in
         case (case frameType of
                 Some t \<Rightarrow> parse K t inp log raw
               | None \<Rightarrow> Returns (log\<lparr>mainStreamIsValid := False\<rparr>)) of
           Diverges \<Rightarrow> Stop Diverges
         | Aborts e \<Rightarrow> Stop (Aborts e)
         | Returns log1 \<Rightarrow>
             Continue log1
               (loc1\<lparr>prematureEof := (if eof (cur log1) then True else prematureEof loc1),
                     lastFrameType := frameType\<rparr>)))"

text \<open>
  One round. \<^verbatim>\<open>lastFrameSize\<close> is the pointer difference, converted to \<^verbatim>\<open>unsigned int\<close>.
\<close>

definition dataStep :: "parserConsts \<Rightarrow> u8 list \<Rightarrow> bool \<Rightarrow> flightLog \<Rightarrow> parseLocals \<Rightarrow> parseStep" where
  "dataStep K inp raw log loc =
     (let (command, c1) = readChar inp (cur log);
          log0 = log\<lparr>cur := c1\<rparr>
      in
      case lastFrameType loc of
        None \<Rightarrow> startFrame K inp raw command log0 loc
      | Some lastType \<Rightarrow>
          (let lastFrameSize = nat ((int (logPos c1) - int (frameStart loc)) mod 2 ^ 32);
               frameType = (if command = EOF then None else getFrameType (word_of_int command));
               looksLikeFrameCompleted =
                 (frameType \<noteq> None \<or> (\<not> prematureEof loc \<and> command = EOF))
           in
           if lastFrameSize \<le> FLIGHT_LOG_MAX_FRAME_LENGTH K \<and> looksLikeFrameCompleted then
             (let st = stats log0;
                  fs = frame st (marker lastType);
                  log1 = log0\<lparr>stats := st\<lparr>frame := (frame st)(marker lastType :=
                            fs\<lparr>bytes := bytes fs + lastFrameSize,
                               sizeCount := (sizeCount fs)
                                 (lastFrameSize := sizeCount fs lastFrameSize + 1),
                               validCount := validCount fs + 1\<rparr>)\<rparr>\<rparr>;
                  log2 = complete lastType log1 (marker lastType) (frameStart loc) (logPos c1) raw
              in startFrame K inp raw command log2 loc)
           else
             (let log1 = log0\<lparr>mainStreamIsValid := False\<rparr>;
                  st = stats log1;
                  fs = frame st (marker lastType);
                  log2 = log1\<lparr>stats := st\<lparr>frame := (frame st)(marker lastType :=
                            fs\<lparr>corruptCount := corruptCount fs + 1\<rparr>),
                            totalCorruptFrames := totalCorruptFrames st + 1\<rparr>\<rparr>;
                  log3 = callFrameReady log2 False None (marker lastType) 0
                           (int (logStart log2) + int (frameStart loc)) (int lastFrameSize)
              in
              Continue (log3\<lparr>cur := \<lparr>logPos = frameStart loc, eof = False\<rparr>\<rparr>)
                (loc\<lparr>lastFrameType := None, prematureEof := False\<rparr>))))"

text \<open>
  What decreases in every round that goes on: twice the distance from the restart point
  to the end of the input, plus one while a frame waits for its verdict.
\<close>

definition scanMeasure :: "u8 list \<Rightarrow> flightLog \<Rightarrow> parseLocals \<Rightarrow> nat" where
  "scanMeasure inp log loc =
     (case lastFrameType loc of
        None \<Rightarrow> 2 * (length inp - logPos (cur log))
      | Some t \<Rightarrow> 2 * (length inp - min (logPos (cur log)) (frameStart loc)) + 1)"

subsection \<open>No reader moves the cursor backwards\<close>

lemma readChar_mono: "readChar inp c = (ch, c') \<Longrightarrow> logPos c \<le> logPos c'"
  by (auto simp: readChar_def split: if_splits)

lemma readByte_mono: "readByte inp c = (b, c') \<Longrightarrow> logPos c \<le> logPos c'"
  by (auto simp: readByte_def split: prod.splits dest: readChar_mono)

lemma readUnsignedVB_loop_mono:
  "readUnsignedVB_loop inp k shift result c = (v, c') \<Longrightarrow> logPos c \<le> logPos c'"
proof (induction k arbitrary: shift result c)
  case 0
  then show ?case by simp
next
  case (Suc k)
  obtain ch c1 where r: "readChar inp c = (ch, c1)" by (cases "readChar inp c")
  have a: "logPos c \<le> logPos c1" using readChar_mono [OF r] .
  show ?case
  proof (cases "ch = EOF \<or> ch < 128")
    case True
    with Suc.prems r a show ?thesis by (auto simp: Let_def simp del: push_bit_and split: if_splits)
  next
    case False
    with Suc.prems r have "readUnsignedVB_loop inp k (shift + 7)
        (result OR word_of_int (push_bit shift (ch AND NOT 128))) c1 = (v, c')"
      by (simp add: Let_def del: push_bit_and)
    from Suc.IH [OF this] a show ?thesis by simp
  qed
qed

lemma readUnsignedVB_mono: "readUnsignedVB inp c = (v, c') \<Longrightarrow> logPos c \<le> logPos c'"
  unfolding readUnsignedVB_def by (rule readUnsignedVB_loop_mono)

lemma readSignedVB_mono: "readSignedVB inp c = (v, c') \<Longrightarrow> logPos c \<le> logPos c'"
  by (auto simp: readSignedVB_def split: prod.splits dest: readUnsignedVB_mono)

lemma readTag2_3S32_field_mono:
  "readTag2_3S32_field inp sel c = (v, c') \<Longrightarrow> logPos c \<le> logPos c'"
  unfolding readTag2_3S32_field_def
  by (auto split: if_splits prod.splits dest!: readByte_mono)

lemma readTag2_3S32_sized_mono:
  "readTag2_3S32_sized inp k i leadByte vals c = (vs, c') \<Longrightarrow> logPos c \<le> logPos c'"
proof (induction k arbitrary: i leadByte vals c)
  case 0
  then show ?case by simp
next
  case (Suc k)
  obtain v c1 where r: "readTag2_3S32_field inp leadByte c = (v, c1)"
    by (cases "readTag2_3S32_field inp leadByte c")
  from Suc.prems r have "readTag2_3S32_sized inp k (i + 1) (drop_bit 2 leadByte) (vals(i := v)) c1 = (vs, c')"
    by simp
  from Suc.IH [OF this] readTag2_3S32_field_mono [OF r] show ?case by simp
qed

lemma readTag2_3S32_mono:
  "readTag2_3S32 inp vals c = (vs, c') \<Longrightarrow> logPos c \<le> logPos c'"
  unfolding readTag2_3S32_def
  by (auto split: if_splits prod.splits dest!: readByte_mono readTag2_3S32_sized_mono)

lemma readTag8_4S16_v1_loop_mono:
  "readTag8_4S16_v1_loop inp i selector vals c = (vs, c') \<Longrightarrow> logPos c \<le> logPos c'"
proof (induction "4 - i" arbitrary: i selector vals c rule: less_induct)
  case less
  have IH: "readTag8_4S16_v1_loop inp j sel vals' c0 = (vs, c') \<Longrightarrow> i < j \<Longrightarrow> i < 4
              \<Longrightarrow> logPos c0 \<le> logPos c'" for j sel vals' c0
    using less.hyps [of j sel vals' c0] by simp
  show ?case
    using less.prems
    apply (subst (asm) readTag8_4S16_v1_loop.simps)
    apply (auto split: if_splits prod.splits dest!: readByte_mono IH)
    done
qed

lemma readTag8_4S16_v1_mono:
  "readTag8_4S16_v1 inp vals c = (vs, c') \<Longrightarrow> logPos c \<le> logPos c'"
  unfolding readTag8_4S16_v1_def
  by (auto split: prod.splits dest!: readByte_mono readTag8_4S16_v1_loop_mono)

lemma readTag8_4S16_v2_loop_mono:
  "readTag8_4S16_v2_loop inp k i selector buffer nibbleIndex vals c = (vs, c')
     \<Longrightarrow> logPos c \<le> logPos c'"
proof (induction k arbitrary: i selector buffer nibbleIndex vals c)
  case 0
  then show ?case by simp
next
  case (Suc k)
  show ?case
    using Suc.prems
    by (auto split: if_splits prod.splits dest!: readByte_mono Suc.IH)
qed

lemma readTag8_4S16_v2_mono:
  "readTag8_4S16_v2 inp vals c = (vs, c') \<Longrightarrow> logPos c \<le> logPos c'"
  unfolding readTag8_4S16_v2_def
  by (auto split: prod.splits dest!: readByte_mono readTag8_4S16_v2_loop_mono)

lemma readTag8_8SVB_loop_mono:
  "readTag8_8SVB_loop inp k i header vals c = (vs, c') \<Longrightarrow> logPos c \<le> logPos c'"
proof (induction k arbitrary: i header vals c)
  case 0
  then show ?case by simp
next
  case (Suc k)
  show ?case
    using Suc.prems
    by (auto split: if_splits prod.splits dest!: readSignedVB_mono Suc.IH)
qed

lemma readTag8_8SVB_mono:
  "readTag8_8SVB inp vals n c = (vs, c') \<Longrightarrow> logPos c \<le> logPos c'"
  unfolding readTag8_8SVB_def
  by (auto split: if_splits prod.splits dest!: readByte_mono readSignedVB_mono readTag8_8SVB_loop_mono)

lemma parseField_mono:
  "parseField inp log frameType previous previous2 skippedFrames raw i c frm = Inr (i', c', frm')
     \<Longrightarrow> logPos c \<le> logPos c'"
  unfolding parseField_def Let_def
  by (auto split: if_splits FlightLogFieldEncoding.splits sum.splits prod.splits
           dest!: readSignedVB_mono readUnsignedVB_mono readTag8_4S16_v1_mono
                  readTag8_4S16_v2_mono readTag2_3S32_mono readTag8_8SVB_mono)

lemma parseFrame_loop_mono:
  "parseFrame_loop inp log frameType previous previous2 fieldCount skippedFrames raw i c frm
      = Inr (c', frm') \<Longrightarrow> logPos c \<le> logPos c'"
proof (induction inp log frameType previous previous2 fieldCount skippedFrames raw i c frm
         rule: parseFrame_loop.induct)
  case (1 inp log frameType previous previous2 fieldCount skippedFrames raw i c frm)
  show ?case
  proof (cases "i < fieldCount")
    case False
    with "1.prems" show ?thesis by (subst (asm) parseFrame_loop.simps) simp
  next
    case True
    with "1.prems" obtain i1 c1 frm1 where
      f: "parseField inp log frameType previous previous2 skippedFrames raw i c frm = Inr (i1, c1, frm1)"
      and l: "parseFrame_loop inp log frameType previous previous2 fieldCount skippedFrames raw i1 c1 frm1 = Inr (c', frm')"
      by (subst (asm) parseFrame_loop.simps) (auto split: sum.splits)
    from "1.IH" [OF True f refl refl l] parseField_mono [OF f] show ?thesis by simp
  qed
qed

lemma parseFrame_mono:
  "parseFrame inp log frameType frm previous previous2 fieldCount skippedFrames raw c = Inr (c', frm')
     \<Longrightarrow> logPos c \<le> logPos c'"
  unfolding parseFrame_def by (rule parseFrame_loop_mono)

lemma parseIntraframe_mono:
  "parseIntraframe K inp log raw = Returns log' \<Longrightarrow> logPos (cur log) \<le> logPos (cur log')"
  unfolding parseIntraframe_def Let_def
  by (auto split: outcome.splits sum.splits if_splits dest!: parseFrame_mono)

lemma parseInterframe_mono:
  "parseInterframe K inp log raw = Returns log' \<Longrightarrow> logPos (cur log) \<le> logPos (cur log')"
  unfolding parseInterframe_def Let_def
  by (auto split: outcome.splits sum.splits dest!: parseFrame_mono)

lemma parseGPSFrame_mono:
  "parseGPSFrame inp log raw = Returns log' \<Longrightarrow> logPos (cur log) \<le> logPos (cur log')"
  unfolding parseGPSFrame_def
  by (auto split: sum.splits dest!: parseFrame_mono)

lemma parseGPSHomeFrame_mono:
  "parseGPSHomeFrame inp log raw = Returns log' \<Longrightarrow> logPos (cur log) \<le> logPos (cur log')"
  unfolding parseGPSHomeFrame_def
  by (auto split: sum.splits dest!: parseFrame_mono)

lemma parseEventFrame_mono:
  "parseEventFrame K inp log raw = Returns log' \<Longrightarrow> logPos (cur log) \<le> logPos (cur log')"
  unfolding parseEventFrame_def
  by (auto split: prod.splits option.splits FlightLogEvent.splits
           dest!: readByte_mono readUnsignedVB_mono)

lemma parse_mono:
  "parse K t inp log raw = Returns log' \<Longrightarrow> logPos (cur log) \<le> logPos (cur log')"
  by (cases t)
     (auto dest: parseIntraframe_mono parseInterframe_mono parseGPSFrame_mono
                 parseGPSHomeFrame_mono parseEventFrame_mono)

lemma cur_updateFieldStatistics: "cur (updateFieldStatistics log frm) = cur log"
  by (simp add: updateFieldStatistics_def Let_def)

lemma cur_callFrameReady: "cur (callFrameReady log v f t n off sz) = cur log"
  by (simp add: callFrameReady_def)

lemma complete_cur: "cur (complete t log m fs fe raw) = cur log"
  by (cases t)
     (simp_all add: completeIntraframe_def completeInterframe_def completeGPSFrame_def
        completeGPSHomeFrame_def completeEventFrame_def Let_def cur_callFrameReady
        cur_updateFieldStatistics flightLoginvalidateStream_def)

lemma startFrame_decreases:
  assumes "startFrame K inp raw command log loc = Continue log' loc'"
    and "command \<noteq> EOF \<Longrightarrow> Suc p \<le> logPos (cur log) \<and> p < length inp"
  shows "scanMeasure inp log' loc' < 2 * (length inp - p)"
proof -
  from assms(1) have ne: "command \<noteq> EOF"
    by (auto simp: startFrame_def split: if_splits)
  with assms(2) have p: "Suc p \<le> logPos (cur log)" "p < length inp" by simp_all
  from assms(1) ne have ge: "logPos (cur log) \<le> logPos (cur log')"
    and fs: "frameStart loc' = logPos (cur log)"
    by (auto simp: startFrame_def Let_def split: option.splits outcome.splits dest: parse_mono)
  show ?thesis
    using p ge fs by (auto simp: scanMeasure_def split: option.splits)
qed

lemma dataStep_decreases:
  assumes "dataStep K inp raw log loc = Continue log' loc'"
  shows "scanMeasure inp log' loc' < scanMeasure inp log loc"
proof -
  obtain command c1 where r: "readChar inp (cur log) = (command, c1)"
    by (cases "readChar inp (cur log)")
  have rd: "command \<noteq> EOF \<Longrightarrow> Suc (logPos (cur log)) \<le> logPos c1 \<and> logPos (cur log) < length inp"
    using r by (auto simp: readChar_def EOF_def split: if_splits)
  show ?thesis
  proof (cases "lastFrameType loc")
    case None
    with assms r have "startFrame K inp raw command (log\<lparr>cur := c1\<rparr>) loc = Continue log' loc'"
      by (simp add: dataStep_def)
    from startFrame_decreases [OF this, of "logPos (cur log)"] rd None
    show ?thesis by (simp add: scanMeasure_def)
  next
    case (Some lastType)
    let ?size = "nat ((int (logPos c1) - int (frameStart loc)) mod 2 ^ 32)"
    let ?ft = "if command = EOF then None else getFrameType (word_of_int command)"
    show ?thesis
    proof (cases "?size \<le> FLIGHT_LOG_MAX_FRAME_LENGTH K
                    \<and> (?ft \<noteq> None \<or> (\<not> prematureEof loc \<and> command = EOF))")
      case True
      with assms r Some obtain log2 where
        st: "startFrame K inp raw command log2 loc = Continue log' loc'"
        and c: "cur log2 = c1"
        by (auto simp: dataStep_def Let_def complete_cur simp del: complete.simps)
      from startFrame_decreases [OF st, of "logPos (cur log)"] rd c
      have "scanMeasure inp log' loc' < 2 * (length inp - logPos (cur log))" by simp
      also have "\<dots> \<le> scanMeasure inp log loc"
        using Some by (simp add: scanMeasure_def)
      finally show ?thesis .
    next
      case False
      with assms r Some have "lastFrameType loc' = None" "logPos (cur log') = frameStart loc"
        by (auto simp: dataStep_def Let_def split: if_splits)
      then show ?thesis using Some by (simp add: scanMeasure_def)
    qed
  qed
qed

text \<open>The loop of the data phase; \<^verbatim>\<open>done:\<close> is \<open>Stop\<close>.\<close>

function flightLogParse_data ::
  "parserConsts \<Rightarrow> u8 list \<Rightarrow> bool \<Rightarrow> flightLog \<Rightarrow> parseLocals \<Rightarrow> flightLog outcome" where
  "flightLogParse_data K inp raw log loc =
     (case dataStep K inp raw log loc of
        Continue log' loc' \<Rightarrow> flightLogParse_data K inp raw log' loc'
      | Stop r \<Rightarrow> r)"
  by pat_completeness auto
termination flightLogParse_data
  by (relation "measure (\<lambda>(K, inp, raw, log, loc). scanMeasure inp log loc)")
     (simp_all add: dataStep_decreases)

declare flightLogParse_data.simps [simp del]

section \<open>The start of a parse\<close>

text \<open>
  \<^verbatim>\<open>flightLogCreate\<close> fills both structures with zero bytes. In the frame definitions the
  number 0 is taken as the predictor that corrects nothing and the signed variable-byte
  encoding, in the event slot as the first event kind. Only the sample session below
  starts from this value.
\<close>

definition flightLogCreate :: flightLog where
  "flightLogCreate =
     \<lparr>stats = \<lparr>totalBytes = 0, totalCorruptFrames = 0, intentionallyAbsentIterations = 0,
               frame = (\<lambda>_. \<lparr>bytes = 0, sizeCount = (\<lambda>_. 0), validCount = 0,
                               corruptCount = 0, desyncCount = 0\<rparr>),
               field = (\<lambda>_. \<lparr>min_f = 0, max_f = 0\<rparr>)\<rparr>,
      frameIntervalI = 0, frameIntervalPNum = 0, frameIntervalPDenom = 0,
      mainFieldSigned = (\<lambda>_. 0),
      mainFieldCount = 0, gpsFieldCount = 0, gpsHomeFieldCount = 0,
      minthrottle = 0, maxthrottle = 0,
      vbatref = 0, vbatscale = 0, vbatmincellvoltage = 0, vbatwarningcellvoltage = 0,
      vbatmaxcellvoltage = 0,
      frameDefs = (\<lambda>_. \<lparr>predictor = (\<lambda>_. FLIGHT_LOG_FIELD_PREDICTOR_0),
                            encoding = (\<lambda>_. FLIGHT_LOG_FIELD_ENCODING_SIGNED_VB)\<rparr>),
      dataVersion = 0,
      motor0Index = 0, home0Index = 0, home1Index = 0,
      blackboxHistoryRing = (\<lambda>_ _. 0),
      mainHistory0 = 0, mainHistory1 = None, mainHistory2 = None,
      mainStreamIsValid = False,
      gpsHomeHistory = (\<lambda>_ _. 0),
      gpsHomeIsValid = False,
      lastEvent = \<lparr>event = FLIGHT_LOG_EVENT_SYNC_BEEP, data = noEventData\<rparr>,
      lastGPS = (\<lambda>_. 0),
      onMetadataReady = False, onFrameReady = False, onEvent = False,
      logStart = 0,
      cur = \<lparr>logPos = 0, eof = False\<rparr>,
      calls = []\<rparr>"

text \<open>
  The head of \<^verbatim>\<open>flightLogParse\<close>, up to the loop: statistics and counts are cleared, the
  stream is invalid, the calibration has its defaults, the named fields are unresolved
  (\<open>-1\<close>), the callbacks and the region are those of the call.
\<close>

definition flightLogParse_reset :: "flightLog \<Rightarrow> bool \<Rightarrow> bool \<Rightarrow> bool \<Rightarrow> nat \<Rightarrow> flightLog" where
  "flightLogParse_reset log metadataReady frameReady eventReady start =
     (flightLoginvalidateStream
        (log\<lparr>stats := \<lparr>totalBytes = 0, totalCorruptFrames = 0, intentionallyAbsentIterations = 0,
                        frame = (\<lambda>_. \<lparr>bytes = 0, sizeCount = (\<lambda>_. 0), validCount = 0,
                                        corruptCount = 0, desyncCount = 0\<rparr>),
                        field = (\<lambda>_. \<lparr>min_f = 0, max_f = 0\<rparr>)\<rparr>,
             mainFieldCount := 0, gpsFieldCount := 0, gpsHomeFieldCount := 0,
             gpsHomeIsValid := False\<rparr>))
       \<lparr>mainHistory0 := 0, mainHistory1 := None, mainHistory2 := None,
        minthrottle := 1150, maxthrottle := 1850,
        vbatref := 4095, vbatscale := 110, vbatmincellvoltage := 33, vbatmaxcellvoltage := 43,
        vbatwarningcellvoltage := 35,
        frameIntervalI := 32, frameIntervalPNum := 1, frameIntervalPDenom := 1,
        motor0Index := - 1, home0Index := - 1, home1Index := - 1,
        lastEvent := (lastEvent log)\<lparr>event := FLIGHT_LOG_EVENT_INVALID\<rparr>,
        onMetadataReady := metadataReady, onFrameReady := frameReady, onEvent := eventReady,
        logStart := start, cur := \<lparr>logPos = 0, eof = False\<rparr>, calls := []\<rparr>"

section \<open>The encoder the round trip is stated against\<close>

text \<open>
  Modelled from the spec: the encoder of unsigned variable-byte integers belongs to the
  flight controller, not to these sources. The spec's wire format, "base-128 varint":
  seven bits a byte, least significant group first, bit 7 set on every byte but the last.
\<close>

function encodeUnsignedVB :: "nat \<Rightarrow> u8 list" where
  "encodeUnsignedVB n =
     (if n < 128 then [of_nat n] else of_nat (n mod 128 + 128) # encodeUnsignedVB (n div 128))"
  by pat_completeness auto
termination
  by (relation "measure id") auto

declare encodeUnsignedVB.simps [simp del]

section \<open>Bounded runs and the record of calls\<close>

text \<open>
  The first \<open>n\<close> rounds of the loop of the data phase: the state it has reached, or how it
  ended before. \<open>logOf\<close> is the session at that point, when the process is still there.
\<close>

fun dataSteps :: "nat \<Rightarrow> parserConsts \<Rightarrow> u8 list \<Rightarrow> bool \<Rightarrow> flightLog \<Rightarrow> parseLocals \<Rightarrow> parseStep" where
  "dataSteps 0 K inp raw log loc = Continue log loc"
| "dataSteps (Suc n) K inp raw log loc =
     (case dataStep K inp raw log loc of
        Continue log' loc' \<Rightarrow> dataSteps n K inp raw log' loc'
      | Stop r \<Rightarrow> Stop r)"

fun logOf :: "parseStep \<Rightarrow> flightLog option" where
  "logOf (Continue log loc) = Some log"
| "logOf (Stop (Returns log)) = Some log"
| "logOf (Stop (Aborts e)) = None"
| "logOf (Stop Diverges) = None"

definition delivered :: "parseStep \<Rightarrow> callback list option" where
  "delivered r = map_option calls (logOf r)"

text \<open>
  A call of \<^verbatim>\<open>onFrameReady\<close> that hands over a valid frame of the kind \<open>m\<close>, and the
  property of a sequence of calls that no valid P frame comes before the first valid I
  frame.
\<close>

fun validFrame :: "u8 \<Rightarrow> callback \<Rightarrow> bool" where
  "validFrame m (FrameReady valid frm frameType fieldCount frameOffset frameSize) =
     (valid \<and> frameType = m)"
| "validFrame m (EventReady e) = False"
| "validFrame m MetadataReady = False"

fun noValidDeltaUntilKeyframe :: "callback list \<Rightarrow> bool" where
  "noValidDeltaUntilKeyframe [] = True"
| "noValidDeltaUntilKeyframe (c # cs) =
     (if validFrame 0x49 c then True
      else if validFrame 0x50 c then False
      else noValidDeltaUntilKeyframe cs)"

section \<open>Invariants of the data phase\<close>

text \<open>
  What a round may add to the record of calls, given the valid flag before and after it;
  and the invariant of the calls made since some point: no valid P frame before the first
  valid I frame, and a valid stream only after a valid I frame was handed over.
\<close>

definition stepEffect :: "flightLog \<Rightarrow> flightLog \<Rightarrow> bool" where
  "stepEffect log log' \<longleftrightarrow>
     (\<exists>new. calls log' = calls log @ new
        \<and> onFrameReady log' = onFrameReady log
        \<and> (\<not> (mainStreamIsValid log \<and> onFrameReady log) \<longrightarrow> noValidDeltaUntilKeyframe new)
        \<and> (mainStreamIsValid log' \<and> onFrameReady log \<longrightarrow>
             mainStreamIsValid log \<or> list_ex (validFrame 0x49) new))"

definition streamInvariant :: "callback list \<Rightarrow> flightLog \<Rightarrow> bool" where
  "streamInvariant cs log \<longleftrightarrow>
     noValidDeltaUntilKeyframe cs
     \<and> (onFrameReady log \<and> mainStreamIsValid log \<longrightarrow> list_ex (validFrame 0x49) cs)"

text \<open>
  Interval settings under which the filter holds for some index, however the fields are
  declared: \<open>I\<close> is not zero, \<open>P_num\<close> and \<open>P_denom\<close> are from 1 to \<open>2 ^ 31 - 1\<close>.
\<close>

definition saneIntervals :: "flightLog \<Rightarrow> bool" where
  "saneIntervals log \<longleftrightarrow>
     frameIntervalI log \<noteq> 0 \<and> 1 \<le> sint (frameIntervalPNum log)
     \<and> 1 \<le> sint (frameIntervalPDenom log)"

text \<open>
  The three pointers into the history ring stay apart: the previous record is in the slot
  before the current one, the one before it in that slot or the one before. So the
  record being decoded is never one of the records it is predicted from, and
  \<^verbatim>\<open>parseFrame\<close> may take them as values.
\<close>

definition ringSeparate :: "flightLog \<Rightarrow> bool" where
  "ringSeparate log \<longleftrightarrow>
     mainHistory0 log < 3
     \<and> mainHistory1 log \<in> {None, Some ((mainHistory0 log + 2) mod 3)}
     \<and> mainHistory2 log \<in> {None, Some ((mainHistory0 log + 2) mod 3),
                               Some ((mainHistory0 log + 1) mod 3)}"

section \<open>A sample session\<close>

text \<open>
  The constants of the Blackbox format for \<^verbatim>\<open>parser.h\<close>'s names, and the state a header
  leaves that names two main fields, the iteration and the time: unsigned varints without
  prediction in I frames; in P frames the iteration by increment, the time a signed varint
  against the previous frame. All callbacks are given. The fields of \<^verbatim>\<open>flightLog_t\<close> are
  taken as declared \<^verbatim>\<open>int\<close>; where a statement below depends on the declaration it names
  the other one too. They instantiate the theorems below; no theorem with a variable
  for the session or for the constants rests on them.
\<close>

definition freshLog :: flightLog where
  "freshLog = flightLogParse_reset flightLogCreate True True True 0"

definition exampleSession :: flightLog where
  "exampleSession =
     freshLog\<lparr>mainFieldCount := 2,
              frameDefs := (frameDefs freshLog)
                (0x49 := \<lparr>predictor = (\<lambda>_. FLIGHT_LOG_FIELD_PREDICTOR_0),
                           encoding = (\<lambda>_. FLIGHT_LOG_FIELD_ENCODING_UNSIGNED_VB)\<rparr>,
                 0x50 := \<lparr>predictor = (\<lambda>i. if i = 0 then FLIGHT_LOG_FIELD_PREDICTOR_INC
                                              else FLIGHT_LOG_FIELD_PREDICTOR_PREVIOUS),
                           encoding = (\<lambda>_. FLIGHT_LOG_FIELD_ENCODING_SIGNED_VB)\<rparr>)\<rparr>"

definition blackboxConsts :: parserConsts where
  "blackboxConsts =
     \<lparr>FLIGHT_LOG_MAX_FRAME_LENGTH = 256,
      eventOfByte = (\<lambda>b. if b = 0 then Some FLIGHT_LOG_EVENT_SYNC_BEEP
                         else if b = 10 then Some FLIGHT_LOG_EVENT_AUTOTUNE_CYCLE_START
                         else if b = 11 then Some FLIGHT_LOG_EVENT_AUTOTUNE_CYCLE_RESULT
                         else None),
      intervalType = C_int, vbatscaleType = C_int, vbatmaxcellvoltageType = C_int\<rparr>"

definition dataStart :: parseLocals where
  "dataStart = \<lparr>prematureEof = False, frameStart = 0, lastFrameType = None\<rparr>"

section \<open>Codec laws\<close>

lemma bit_128_int: "bit (128::int) n \<longleftrightarrow> n = 7"
proof -
  have "(128::int) = 2 ^ 7" by simp
  then show ?thesis by (simp only: bit_exp_iff) simp
qed

lemma int_and_not_128: 
  assumes "0 \<le> ch" "ch < 256" shows "ch AND NOT 128 = ch mod (128::int)"
proof -
  have a: "ch mod 128 = take_bit 7 ch" by (simp add: take_bit_eq_mod)
  have b: "ch = take_bit 8 ch" using assms by (simp add: take_bit_int_eq_self)
  show ?thesis
    apply (subst a)
    apply (subst (1) b)
    apply (rule bit_eqI)
    apply (auto simp add: bit_simps bit_128_int)
    done
qed

lemma split_or: "(of_nat (n mod 128) :: u32) OR push_bit 7 (of_nat (n div 128)) = of_nat n"
proof -
  have a: "n mod 128 = take_bit 7 n" by (simp add: take_bit_eq_mod)
  have b: "n div 128 = drop_bit 7 n" by (simp add: drop_bit_eq_div)
  show ?thesis
    unfolding a b
    by (rule bit_eqI) (auto simp add: bit_simps)
qed

lemma readChar_at:
  "readChar (pre @ b # rest) \<lparr>logPos = length pre, eof = e\<rparr>
     = (uint b, \<lparr>logPos = Suc (length pre), eof = e\<rparr>)"
  by (simp add: readChar_def)

lemma uint_small: "n < 128 \<Longrightarrow> uint (of_nat n :: u8) = int n"
  by (simp add: unsigned_of_nat take_bit_nat_eq_self) 

lemma uint_cont: "uint (of_nat (n mod 128 + 128) :: u8) = int (n mod 128) + 128"
proof -
  have "n mod 128 + 128 < 2 ^ 8" by simp
  then have "take_bit 8 (n mod 128 + 128) = n mod 128 + 128"
    by (simp only: take_bit_nat_eq_self)
  then show ?thesis 
    by (simp add: unsigned_of_nat del: of_nat_add of_nat_mod) 
qed

lemma vb_payload:
  assumes "0 \<le> ch" "ch < 256"
  shows "(word_of_int (push_bit shift (ch AND NOT 128)) :: u32)
           = push_bit shift (word_of_int (ch mod 128))"
  by (simp only: int_and_not_128 [OF assms] of_int_push_bit)

lemma vb_last:
  assumes "n < 128"
  shows "(word_of_int (push_bit shift (int n AND NOT 128)) :: u32) = push_bit shift (of_nat n)"
proof -
  have "int n mod 128 = int n" using assms by simp
  then show ?thesis using assms by (simp only: vb_payload [of "int n"]) simp
qed

lemma vb_last':
  "n < 128 \<Longrightarrow> (word_of_int (push_bit shift (int n AND - 129)) :: u32) = push_bit shift (of_nat n)"
  using vb_last [of n shift] by simp

lemma vb_cont:
  "(word_of_int (push_bit shift ((int (n mod 128) + 128) AND - 129)) :: u32)
     = push_bit shift (of_nat (n mod 128))"
proof -
  have "(int (n mod 128) + 128) mod 128 = int (n mod 128)"
    by (simp del: of_nat_mod)
  moreover have "0 \<le> int (n mod 128) + 128" "int (n mod 128) + 128 < 256"
    by simp_all
  ultimately show ?thesis
    using vb_payload [of "int (n mod 128) + 128" shift] by (simp del: of_nat_mod)
qed

lemma readUnsignedVB_loop_roundtrip:
  "n < 2 ^ (7 * Suc k) \<Longrightarrow>
   readUnsignedVB_loop (pre @ encodeUnsignedVB n @ rest) (Suc k) shift result
       \<lparr>logPos = length pre, eof = e\<rparr>
     = (result OR push_bit shift (of_nat n),
        \<lparr>logPos = length pre + length (encodeUnsignedVB n), eof = e\<rparr>)"
proof (induction k arbitrary: n pre shift result)
  case 0
  then have n: "n < 128" by simp
  have enc: "encodeUnsignedVB n = [of_nat n]" using n by (simp add: encodeUnsignedVB.simps)
  show ?case
    unfolding enc using n
    by (simp add: readChar_at uint_small EOF_def vb_last' del: push_bit_and)
next
  case (Suc k)
  show ?case
  proof (cases "n < 128")
    case True
    have enc: "encodeUnsignedVB n = [of_nat n]" using True by (simp add: encodeUnsignedVB.simps)
    show ?thesis
      unfolding enc using True
      by (simp add: readChar_at uint_small EOF_def vb_last' del: push_bit_and)
  next
    case False
    let ?b = "of_nat (n mod 128 + 128) :: u8"
    have enc: "encodeUnsignedVB n = ?b # encodeUnsignedVB (n div 128)"
      using False by (subst encodeUnsignedVB.simps) simp
    have small: "n div 128 < 2 ^ (7 * Suc k)"
      using Suc.prems by (simp add: less_mult_imp_div_less power_add)
    have ih: "readUnsignedVB_loop ((pre @ [?b]) @ encodeUnsignedVB (n div 128) @ rest) (Suc k)
                (shift + 7) (result OR push_bit shift (of_nat (n mod 128)))
                \<lparr>logPos = length (pre @ [?b]), eof = e\<rparr>
              = ((result OR push_bit shift (of_nat (n mod 128)))
                    OR push_bit (shift + 7) (of_nat (n div 128)),
                 \<lparr>logPos = length (pre @ [?b]) + length (encodeUnsignedVB (n div 128)), eof = e\<rparr>)"
      by (rule Suc.IH [OF small])
    have join: "(result OR push_bit shift (of_nat (n mod 128)))
                    OR push_bit (shift + 7) (of_nat (n div 128))
                = result OR push_bit shift (of_nat n :: u32)"
    proof -
      have "push_bit shift (of_nat (n mod 128) :: u32) OR push_bit (shift + 7) (of_nat (n div 128))
             = push_bit shift ((of_nat (n mod 128) :: u32) OR push_bit 7 (of_nat (n div 128)))"
        by (simp add: push_bit_or push_bit_add add.commute del: of_nat_mod of_nat_div)
      then show ?thesis by (simp only: split_or or.assoc)
    qed
    have step: "readUnsignedVB_loop (pre @ ?b # encodeUnsignedVB (n div 128) @ rest) (Suc (Suc k))
                  shift result \<lparr>logPos = length pre, eof = e\<rparr>
                = readUnsignedVB_loop ((pre @ [?b]) @ encodeUnsignedVB (n div 128) @ rest) (Suc k)
                    (shift + 7) (result OR push_bit shift (of_nat (n mod 128)))
                    \<lparr>logPos = length (pre @ [?b]), eof = e\<rparr>"
      apply (subst readUnsignedVB_loop.simps)
      apply (simp only: readChar_at uint_cont)
      apply (simp add: EOF_def vb_cont del: push_bit_and readUnsignedVB_loop.simps of_nat_mod of_nat_add)
      done
    show ?thesis
      unfolding enc using step ih join by simp
  qed
qed

lemma uint_or_128: "128 \<le> uint (b OR 128 :: u8)"
proof -
  have "(128 :: u8) \<le> 128 OR b" by (rule le_word_or2)
  then have "uint (128 :: u8) \<le> uint (b OR 128)" by (simp add: word_le_def or.commute)
  then show ?thesis by simp
qed

lemma readUnsignedVB_loop_all_continue:
  "\<forall>b \<in> set bs. 128 \<le> uint b \<Longrightarrow>
   readUnsignedVB_loop (pre @ bs @ rest) (length bs) shift result \<lparr>logPos = length pre, eof = e\<rparr>
     = (0, \<lparr>logPos = length pre + length bs, eof = e\<rparr>)"
proof (induction bs arbitrary: pre shift result)
  case Nil
  show ?case by simp
next
  case (Cons b bs)
  have b: "128 \<le> uint b" and bs: "\<forall>b \<in> set bs. 128 \<le> uint b"
    using Cons.prems by simp_all
  have "readUnsignedVB_loop ((pre @ [b]) @ bs @ rest) (length bs) (shift + 7)
          (result OR word_of_int (push_bit shift (uint b AND NOT 128)))
          \<lparr>logPos = length (pre @ [b]), eof = e\<rparr>
        = (0, \<lparr>logPos = length (pre @ [b]) + length bs, eof = e\<rparr>)"
    by (rule Cons.IH [OF bs])
  then show ?case
    using b by (simp add: readChar_at EOF_def del: push_bit_and)
qed

text \<open>
  Claim C5. For every 32-bit \<open>n\<close>, \<^verbatim>\<open>readUnsignedVB\<close> on the base-128 encoding of \<open>n\<close>, wherever
  it stands in the input, returns \<open>n\<close> and leaves the cursor right after the encoding; and
  five bytes that all carry the continuation bit (a varint longer than five bytes) decode
  to 0, the cursor after the fifth.
\<close>

theorem readUnsignedVB_roundtrip_overlong:
  "readUnsignedVB (pre @ encodeUnsignedVB (unat n) @ rest) \<lparr>logPos = length pre, eof = e\<rparr>
     = (n, \<lparr>logPos = length pre + length (encodeUnsignedVB (unat n)), eof = e\<rparr>)
   \<and> readUnsignedVB (pre @ [b1 OR 128, b2 OR 128, b3 OR 128, b4 OR 128, b5 OR 128] @ rest)
         \<lparr>logPos = length pre, eof = e\<rparr>
     = (0, \<lparr>logPos = length pre + 5, eof = e\<rparr>)"
proof
  have "unat n < 2 ^ 32" by (rule order_less_le_trans [OF unsigned_less]) simp
  then have "unat n < 2 ^ (7 * Suc 4)" by simp
  from readUnsignedVB_loop_roundtrip [OF this, of pre rest 0 0 e]
  show "readUnsignedVB (pre @ encodeUnsignedVB (unat n) @ rest) \<lparr>logPos = length pre, eof = e\<rparr>
     = (n, \<lparr>logPos = length pre + length (encodeUnsignedVB (unat n)), eof = e\<rparr>)"
    by (simp add: readUnsignedVB_def eval_nat_numeral)
next
  let ?bs = "[b1 OR 128, b2 OR 128, b3 OR 128, b4 OR 128, b5 OR 128]"
  have all: "\<forall>b \<in> set ?bs. 128 \<le> uint b" by (simp add: uint_or_128)
  have len: "length ?bs = 5" by simp
  show "readUnsignedVB (pre @ ?bs @ rest) \<lparr>logPos = length pre, eof = e\<rparr>
     = (0, \<lparr>logPos = length pre + 5, eof = e\<rparr>)"
    unfolding readUnsignedVB_def
    using readUnsignedVB_loop_all_continue [OF all, of pre rest 0 0 e, unfolded len] .
qed

text \<open>
  Claim C6, as the spec states it, fails: the lead byte \<open>0x15\<close> is \<open>00 01 01 01\<close> in binary,
  and the first lane of \<^verbatim>\<open>readTag2_3S32\<close> is 1, not 0.
\<close>

theorem lead_byte_0x15_is_not_0_1_1:
  "map (fst (readTag2_3S32 [0x15] (\<lambda>_. 0) \<lparr>logPos = 0, eof = False\<rparr>)) [0, 1, 2] \<noteq> [0, 1, 1]"
  by (simp add: readTag2_3S32_def readByte_def readChar_def signExtend2Bit_def)

text \<open>
  Claim C6, amended. A \<^verbatim>\<open>TAG2_3S32\<close> group whose lead byte is \<open>0x15\<close> decodes to the three
  values 1, 1, 1 and takes that one byte.
\<close>

theorem readTag2_3S32_0x15:
  "map (fst (readTag2_3S32 (pre @ 0x15 # rest) vals \<lparr>logPos = length pre, eof = e\<rparr>)) [0, 1, 2]
     = [1, 1, 1]
   \<and> snd (readTag2_3S32 (pre @ 0x15 # rest) vals \<lparr>logPos = length pre, eof = e\<rparr>)
     = \<lparr>logPos = length pre + 1, eof = e\<rparr>"
  by (simp add: readTag2_3S32_def readByte_def readChar_def signExtend2Bit_def)

section \<open>The iteration-rate filter and the battery utilities\<close>

lemma smod_nonneg: "0 \<le> a \<Longrightarrow> 0 < b \<Longrightarrow> a smod b = a mod (b::int)"
  by (simp add: signed_modulo_int_def sgn_if)

lemma sint_word_of_int_in_range:
  "- (2 ^ 31) \<le> x \<Longrightarrow> x < 2 ^ 31 \<Longrightarrow> sint (word_of_int x :: u32) = x"
  by (simp add: sint_sbintrunc' signed_take_bit_int_eq_self)

lemma uint_word_of_int_in_range:
  "0 \<le> x \<Longrightarrow> x < 2 ^ 32 \<Longrightarrow> uint (word_of_int x :: u32) = x"
  by (rule word_of_int_inverse [OF refl]) simp_all

lemma uint_pos: "w \<noteq> 0 \<Longrightarrow> 0 < uint (w :: u32)"
  using uint_0_iff [of w] uint_ge_0 [of w] by linarith

lemma shouldHaveFrame_signed:
  assumes t: "intervalType K = C_int"
    and h: "0 \<le> sint idx" "1 \<le> sint (frameIntervalI log)" "1 \<le> sint (frameIntervalPNum log)"
      "1 \<le> sint (frameIntervalPDenom log)"
      "sint (frameIntervalI log) + sint (frameIntervalPNum log) \<le> 2 ^ 31"
  shows "shouldHaveFrame K log idx
      = Inr ((sint idx mod sint (frameIntervalI log) + sint (frameIntervalPNum log) - 1)
               mod sint (frameIntervalPDenom log) < sint (frameIntervalPNum log))"
proof -
  let ?a = "sint idx mod sint (frameIntervalI log)"
  have a0: "0 \<le> ?a" and a1: "?a < sint (frameIntervalI log)"
    using h by simp_all
  have sm: "sint idx smod sint (frameIntervalI log) = ?a"
    using h by (simp add: smod_nonneg)
  have "(word_of_int ?a :: u32) + frameIntervalPNum log - 1
          = word_of_int (?a + sint (frameIntervalPNum log) - 1)"
    by simp
  moreover have "sint (word_of_int (?a + sint (frameIntervalPNum log) - 1) :: u32)
          = ?a + sint (frameIntervalPNum log) - 1"
    using a0 a1 h by (intro sint_word_of_int_in_range) linarith+
  ultimately have s: "sint ((word_of_int ?a :: u32) + frameIntervalPNum log - 1)
          = ?a + sint (frameIntervalPNum log) - 1"
    by (simp only:)
  have nz: "frameIntervalI log \<noteq> 0" "frameIntervalPDenom log \<noteq> 0"
    using h by auto
  have b: "0 \<le> ?a + sint (frameIntervalPNum log) - 1" using a0 h by linarith
  have d: "0 < sint (frameIntervalPDenom log)" using h by simp
  have fi: "sint (frameIntervalI log) \<noteq> - 1" "sint (frameIntervalPDenom log) \<noteq> - 1"
    using h by linarith+
  show ?thesis
    unfolding shouldHaveFrame_def t Let_def cIntType.case sm s smod_nonneg [OF b d]
    using nz fi by (simp only: if_False simp_thms)
qed

lemma shouldHaveFrame_unsigned:
  assumes t: "intervalType K = C_unsigned_int"
    and h: "frameIntervalI log \<noteq> 0" "frameIntervalPDenom log \<noteq> 0"
      "uint (frameIntervalI log) + uint (frameIntervalPNum log) \<le> 2 ^ 32"
  shows "shouldHaveFrame K log idx
      = Inr ((uint idx mod uint (frameIntervalI log) + uint (frameIntervalPNum log) - 1)
               mod uint (frameIntervalPDenom log) < uint (frameIntervalPNum log))"
proof (cases "frameIntervalPNum log = 0")
  case True
  have "0 < uint (frameIntervalPDenom log)" using h(2) by (rule uint_pos)
  then have "0 \<le> (uint idx mod uint (frameIntervalI log) - 1) mod uint (frameIntervalPDenom log)"
    by simp
  then show ?thesis using h True by (simp add: shouldHaveFrame_def t Let_def)
next
  case False
  let ?a = "uint idx mod uint (frameIntervalI log)"
  have i0: "0 < uint (frameIntervalI log)" using h(1) by (rule uint_pos)
  have n0: "0 < uint (frameIntervalPNum log)" using False by (rule uint_pos)
  have a0: "0 \<le> ?a" and a1: "?a < uint (frameIntervalI log)"
    using i0 by simp_all
  have "word_of_int (?a + uint (frameIntervalPNum log) - 1)
          = (word_of_int (uint (idx mod frameIntervalI log)) :: u32)
              + word_of_int (uint (frameIntervalPNum log)) - 1"
    by (simp only: uint_mod_distrib wi_hom_syms word_of_int_1)
  then have e: "idx mod frameIntervalI log + frameIntervalPNum log - 1
          = word_of_int (?a + uint (frameIntervalPNum log) - 1)"
    by (simp only: word_of_int_uint)
  have "uint (word_of_int (?a + uint (frameIntervalPNum log) - 1) :: u32)
          = ?a + uint (frameIntervalPNum log) - 1"
    using a0 a1 n0 h by (intro uint_word_of_int_in_range) linarith+
  with e have s: "uint (idx mod frameIntervalI log + frameIntervalPNum log - 1)
          = ?a + uint (frameIntervalPNum log) - 1"
    by (simp only:)
  show ?thesis
    unfolding shouldHaveFrame_def t Let_def cIntType.case word_less_def uint_mod_distrib s
    using h by (simp only: if_False simp_thms)
qed

lemma shouldHaveFrame_every:
  assumes "frameIntervalI log = 32" "frameIntervalPNum log = 1" "frameIntervalPDenom log = 1"
  shows "shouldHaveFrame K log idx = Inr True"
  using assms by (cases "intervalType K") (simp_all add: shouldHaveFrame_def Let_def word_less_def signed_modulo_int_def)

text \<open>
  Claim C7, as stated for every index and every interval, fails whichever way the
  interval fields are declared. With \<^verbatim>\<open>int\<close> fields the index \<open>0xFFFFFFFF\<close> arrives as
  \<open>-1\<close>, the remainders of C keep its sign, and with \<open>I = 32\<close>, \<open>P = 1/2\<close> the filter holds
  where the formula does not; with \<open>P_num = 0\<close>, \<open>P_denom = 2\<close> it holds at index 0, where
  the formula does not. With \<^verbatim>\<open>unsigned int\<close> fields the sum wraps at \<open>2 ^ 32\<close>: for
  \<open>I = 4294967295\<close>, \<open>P = 3/4294967293\<close> (the header values \<open>-1\<close> and \<open>3/-3\<close>) the filter
  holds at index 4294967294, where the formula does not.
\<close>

theorem shouldHaveFrame_outside_formula:
  "shouldHaveFrame (blackboxConsts\<lparr>intervalType := C_int\<rparr>)
      (freshLog\<lparr>frameIntervalI := 32, frameIntervalPNum := 1, frameIntervalPDenom := 2\<rparr>)
      0xFFFFFFFF = Inr True
   \<and> \<not> ((4294967295 mod 32 + 1 - 1) mod 2 < (1 :: int))
   \<and> \<not> ((- 1 mod 32 + 1 - 1) mod 2 < (1 :: int))
   \<and> shouldHaveFrame (blackboxConsts\<lparr>intervalType := C_int\<rparr>)
      (freshLog\<lparr>frameIntervalI := 32, frameIntervalPNum := 0, frameIntervalPDenom := 2\<rparr>)
      0 = Inr True
   \<and> \<not> ((0 mod 32 + 0 - 1) mod 2 < (0 :: int))
   \<and> shouldHaveFrame (blackboxConsts\<lparr>intervalType := C_unsigned_int\<rparr>)
      (freshLog\<lparr>frameIntervalI := 4294967295, frameIntervalPNum := 3,
                frameIntervalPDenom := 4294967293\<rparr>)
      4294967294 = Inr True
   \<and> \<not> ((4294967294 mod 4294967295 + 3 - 1) mod 4294967293 < (3 :: int))"
  by (simp add: shouldHaveFrame_def signed_modulo_int_def Let_def)

text \<open>
  Claim C7, amended. \<^verbatim>\<open>shouldHaveFrame\<close> is the test
  \<open>(idx mod I + P_num - 1) mod P_denom < P_num\<close>
  \<^item> with \<^verbatim>\<open>int\<close> fields: for an index that is not negative as \<^verbatim>\<open>int32_t\<close> (below \<open>2 ^ 31\<close>),
    \<open>I\<close>, \<open>P_num\<close>, \<open>P_denom\<close> at least 1 and \<open>I + P_num\<close> at most \<open>2 ^ 31\<close>;
  \<^item> with \<^verbatim>\<open>unsigned int\<close> fields: for every 32-bit index, \<open>I\<close> and \<open>P_denom\<close> at least 1 and
    \<open>I + P_num\<close> at most \<open>2 ^ 32\<close>;
  \<^item> and with \<open>I = 32\<close>, \<open>P_num = 1\<close>, \<open>P_denom = 1\<close> it holds for every 32-bit index, under
    either declaration.
\<close>

theorem shouldHaveFrame_formula:
  "(intervalType K = C_int \<and> 0 \<le> sint idx \<and> 1 \<le> sint (frameIntervalI log)
      \<and> 1 \<le> sint (frameIntervalPNum log) \<and> 1 \<le> sint (frameIntervalPDenom log)
      \<and> sint (frameIntervalI log) + sint (frameIntervalPNum log) \<le> 2 ^ 31 \<longrightarrow>
    shouldHaveFrame K log idx
      = Inr ((sint idx mod sint (frameIntervalI log) + sint (frameIntervalPNum log) - 1)
               mod sint (frameIntervalPDenom log) < sint (frameIntervalPNum log)))
   \<and> (intervalType K = C_unsigned_int \<and> frameIntervalI log \<noteq> 0 \<and> frameIntervalPDenom log \<noteq> 0
      \<and> uint (frameIntervalI log) + uint (frameIntervalPNum log) \<le> 2 ^ 32 \<longrightarrow>
    shouldHaveFrame K log idx
      = Inr ((uint idx mod uint (frameIntervalI log) + uint (frameIntervalPNum log) - 1)
               mod uint (frameIntervalPDenom log) < uint (frameIntervalPNum log)))
   \<and> (frameIntervalI log = 32 \<and> frameIntervalPNum log = 1 \<and> frameIntervalPDenom log = 1 \<longrightarrow>
      shouldHaveFrame K log idx = Inr True)"
  using shouldHaveFrame_signed [of K idx log] shouldHaveFrame_unsigned [of K log idx]
    shouldHaveFrame_every [of log K idx]
  by blast

text \<open>
  Witness of C7: index 37 with 32, 1/2 and \<^verbatim>\<open>int\<close> fields; index \<open>0xFFFFFFFF\<close> with 32, 1/2
  and \<^verbatim>\<open>unsigned int\<close> fields; index \<open>0xFFFFFFFF\<close> with the defaults 32, 1/1.
\<close>

theorem shouldHaveFrame_formula_witness:
  "intervalType blackboxConsts = C_int \<and> 0 \<le> sint (37 :: u32)
   \<and> shouldHaveFrame blackboxConsts
         (freshLog\<lparr>frameIntervalI := 32, frameIntervalPNum := 1, frameIntervalPDenom := 2\<rparr>) 37
       = Inr ((37 mod 32 + 1 - 1) mod 2 < (1 :: int))
   \<and> shouldHaveFrame (blackboxConsts\<lparr>intervalType := C_unsigned_int\<rparr>)
         (freshLog\<lparr>frameIntervalI := 32, frameIntervalPNum := 1, frameIntervalPDenom := 2\<rparr>)
         0xFFFFFFFF
       = Inr ((4294967295 mod 32 + 1 - 1) mod 2 < (1 :: int))
   \<and> frameIntervalI freshLog = 32 \<and> frameIntervalPNum freshLog = 1
   \<and> frameIntervalPDenom freshLog = 1
   \<and> shouldHaveFrame blackboxConsts freshLog 0xFFFFFFFF = Inr True"
  using shouldHaveFrame_formula
      [of blackboxConsts 37
          "freshLog\<lparr>frameIntervalI := 32, frameIntervalPNum := 1, frameIntervalPDenom := 2\<rparr>"]
    shouldHaveFrame_formula
      [of "blackboxConsts\<lparr>intervalType := C_unsigned_int\<rparr>" "0xFFFFFFFF"
          "freshLog\<lparr>frameIntervalI := 32, frameIntervalPNum := 1, frameIntervalPDenom := 2\<rparr>"]
    shouldHaveFrame_formula [of blackboxConsts "0xFFFFFFFF" freshLog]
  by (simp add: blackboxConsts_def freshLog_def flightLogParse_reset_def
        flightLoginvalidateStream_def flightLogCreate_def)

text \<open>
  Claim C8 fails on the code for \<^verbatim>\<open>HOME_COORD_1\<close>: with \<^verbatim>\<open>GPS_home[1]\<close> resolved to field
  position 0 the test \<^verbatim>\<open>home1Index < 1\<close> ends the process, where \<^verbatim>\<open>HOME_COORD\<close> and
  \<^verbatim>\<open>MOTOR_0\<close>, which test \<^verbatim>\<open>< 0\<close>, apply the prediction at position 0.
\<close>

theorem applyPrediction_HOME_COORD_1_at_position_0:
  "applyPrediction (log\<lparr>home1Index := 0\<rparr>) i FLIGHT_LOG_FIELD_PREDICTOR_HOME_COORD_1 v
       current previous previous2
     = Inl EXIT_GPS_HOME_UNDEFINED
   \<and> applyPrediction (log\<lparr>home0Index := 0\<rparr>) i FLIGHT_LOG_FIELD_PREDICTOR_HOME_COORD v
       current previous previous2
     = Inr (v + gpsHomeHistory log 1 0)
   \<and> applyPrediction (log\<lparr>motor0Index := 0\<rparr>) i FLIGHT_LOG_FIELD_PREDICTOR_MOTOR_0 v
       current previous previous2
     = Inr (v + current 0)"
  by (simp add: applyPrediction_def)

lemma flightLogEstimateNumCells_loop_least:
  "1 \<le> i \<Longrightarrow> i \<le> 8 \<Longrightarrow> \<forall>k. 1 \<le> k \<and> k < i \<longrightarrow> \<not> cellsSuffice K log r k \<Longrightarrow>
   (let n = flightLogEstimateNumCells_loop K log r i in
      i \<le> n \<and> n \<le> 8 \<and> (\<forall>k. 1 \<le> k \<and> k < n \<longrightarrow> \<not> cellsSuffice K log r k)
      \<and> (n < 8 \<longrightarrow> cellsSuffice K log r n))"
proof (induction K log r i rule: flightLogEstimateNumCells_loop.induct)
  case (1 K log r i)
  show ?case
  proof (cases "i < 8")
    case False
    with "1.prems" show ?thesis by (subst flightLogEstimateNumCells_loop.simps) (simp add: Let_def)
  next
    case lt: True
    show ?thesis
    proof (cases "cellsSuffice K log r i")
      case True
      with lt "1.prems" show ?thesis
        by (subst flightLogEstimateNumCells_loop.simps) (simp add: Let_def)
    next
      case False
      have "\<forall>k. 1 \<le> k \<and> k < i + 1 \<longrightarrow> \<not> cellsSuffice K log r k"
        using "1.prems"(3) False by (auto simp: less_Suc_eq)
      with "1.IH" [OF lt False] lt "1.prems" have
        "let n = flightLogEstimateNumCells_loop K log r (i + 1) in
           i + 1 \<le> n \<and> n \<le> 8 \<and> (\<forall>k. 1 \<le> k \<and> k < n \<longrightarrow> \<not> cellsSuffice K log r k)
           \<and> (n < 8 \<longrightarrow> cellsSuffice K log r n)" by simp
      with lt False show ?thesis
        by (subst flightLogEstimateNumCells_loop.simps) (simp add: Let_def)
    qed
  qed
qed

lemma uint_div_100: "uint ((w :: u32) div 100) \<le> 42949672"
proof -
  have "uint (w div 100) = uint w div 100" by (simp add: uint_div_distrib)
  moreover have "uint w < 2 ^ 32" using uint_lt2p [of w] by simp
  ultimately show ?thesis by simp
qed

lemma sint_eq_uint_small: "uint (w :: u32) < 2 ^ 31 \<Longrightarrow> sint w = uint w"
  using sint_word_of_int_in_range [of "uint w"] uint_ge_0 [of w] by simp

lemma cellsSuffice_first:
  assumes "uint r \<le> 42949672"
  shows "cellsSuffice K log r 1
           \<longleftrightarrow> uint r < valueOf (vbatmaxcellvoltageType K) (vbatmaxcellvoltage log)"
  using assms by (cases "vbatmaxcellvoltageType K")
    (simp_all add: cellsSuffice_def word_less_def sint_eq_uint_small)

lemma cellsSuffice_no_wrap:
  assumes r: "uint r \<le> 42949672"
    and le: "valueOf (vbatmaxcellvoltageType K) (vbatmaxcellvoltage log) \<le> uint r"
    and lo: "- (2 ^ 31) \<le> 7 * valueOf (vbatmaxcellvoltageType K) (vbatmaxcellvoltage log)"
    and k: "k \<le> 7"
  shows "cellsSuffice K log r k
           \<longleftrightarrow> uint r < int k * valueOf (vbatmaxcellvoltageType K) (vbatmaxcellvoltage log)"
proof (cases "vbatmaxcellvoltageType K")
  case C_int
  let ?v = "sint (vbatmaxcellvoltage log)"
  have v: "?v \<le> 42949672" "- (2 ^ 31) \<le> 7 * ?v" using r le lo by (simp_all add: C_int)
  have k7: "int k \<le> 7" "0 \<le> int k" using k by simp_all
  have up: "int k * ?v \<le> 7 * 42949672"
  proof (cases "0 \<le> ?v")
    case True
    then have "int k * ?v \<le> 7 * ?v" using k7 by (intro mult_right_mono) simp_all
    with v show ?thesis by linarith
  next
    case False
    then have "int k * ?v \<le> 0" using k7 by (simp add: mult_nonneg_nonpos)
    then show ?thesis by linarith
  qed
  have dn: "- (2 ^ 31) \<le> int k * ?v"
  proof (cases "0 \<le> ?v")
    case True
    then have "0 \<le> int k * ?v" using k7 by simp
    then show ?thesis by simp
  next
    case False
    then have "7 * ?v \<le> int k * ?v" using k7 by (intro mult_right_mono_neg) simp_all
    with v show ?thesis by linarith
  qed
  have "of_nat k * vbatmaxcellvoltage log = (word_of_int (int k * ?v) :: u32)"
    by (simp add: wi_hom_mult [symmetric])
  moreover have "sint (word_of_int (int k * ?v) :: u32) = int k * ?v"
    using up dn by (intro sint_word_of_int_in_range) simp_all
  ultimately have "sint (of_nat k * vbatmaxcellvoltage log) = int k * ?v" by (simp only:)
  then show ?thesis
    using r by (simp add: cellsSuffice_def C_int sint_eq_uint_small)
next
  case C_unsigned_int
  let ?v = "uint (vbatmaxcellvoltage log)"
  have v: "?v \<le> 42949672" "0 \<le> ?v" using r le by (simp_all add: C_unsigned_int)
  have k7: "int k \<le> 7" "0 \<le> int k" using k by simp_all
  have "int k * ?v \<le> 7 * ?v" using k7 v by (intro mult_right_mono) simp_all
  with v have up: "int k * ?v < 2 ^ 32" by simp
  have dn: "0 \<le> int k * ?v" using k7 v by simp
  have "of_nat k * vbatmaxcellvoltage log = (word_of_int (int k * ?v) :: u32)"
    by (simp add: wi_hom_mult [symmetric])
  moreover have "uint (word_of_int (int k * ?v) :: u32) = int k * ?v"
    using up dn by (intro uint_word_of_int_in_range) simp_all
  ultimately have "uint (of_nat k * vbatmaxcellvoltage log) = int k * ?v" by (simp only:)
  then show ?thesis
    by (simp add: cellsSuffice_def C_unsigned_int word_less_def)
qed


text \<open>
  Claim C9 fails on the default calibration: the reference is 363, no \<open>n\<close> up to 7 has
  \<open>363 < n * 43\<close>, and \<^verbatim>\<open>flightLogEstimateNumCells\<close> returns 8, not 7, however the scale and
  the cell voltage are declared.
\<close>

theorem flightLogEstimateNumCells_default_is_8:
  "uint (flightLogVbatToMillivolts blackboxConsts
           (flightLogParse_reset flightLogCreate False False False 0) 4095 div 100) = 363
   \<and> valueOf C_int (vbatmaxcellvoltage (flightLogParse_reset flightLogCreate False False False 0))
       = 43
   \<and> \<not> (363 < 7 * (43 :: int))
   \<and> flightLogEstimateNumCells blackboxConsts
         (flightLogParse_reset flightLogCreate False False False 0) = 8
   \<and> flightLogEstimateNumCells
         (blackboxConsts\<lparr>vbatscaleType := C_unsigned_int\<rparr>)
         (flightLogParse_reset flightLogCreate False False False 0) = 8
   \<and> flightLogEstimateNumCells
         (blackboxConsts\<lparr>vbatmaxcellvoltageType := C_unsigned_int\<rparr>)
         (flightLogParse_reset flightLogCreate False False False 0) = 8
   \<and> flightLogEstimateNumCells
         (blackboxConsts\<lparr>vbatscaleType := C_unsigned_int,
                          vbatmaxcellvoltageType := C_unsigned_int\<rparr>)
         (flightLogParse_reset flightLogCreate False False False 0) = 8"
  by (simp add: flightLogEstimateNumCells_def flightLogVbatToMillivolts_def cellsSuffice_def
        flightLogEstimateNumCells_loop.simps blackboxConsts_def
        flightLogParse_reset_def flightLoginvalidateStream_def flightLogCreate_def
        signed_divide_int_def word_less_def)

text \<open>
  Claim C9, amended. \<^verbatim>\<open>flightLogEstimateNumCells\<close> returns the smallest \<open>n\<close> from 1 to 7 with
  \<open>vbat_to_millivolts(vbatref) / 100 < n * vbatmaxcellvoltage\<close>, and 8 when there is none:
  the result is between 1 and 8, no smaller \<open>k\<close> passes the test, and a result below 8
  passes it. \<open>vbat_to_millivolts\<close> is \<^verbatim>\<open>flightLogVbatToMillivolts\<close>, the comparison is between
  the integers the fields denote, and 7 times the cell voltage is not below \<open>- 2 ^ 31\<close>
  (every cell voltage that is not negative).
\<close>

theorem flightLogEstimateNumCells_least:
  "- (2 ^ 31) \<le> 7 * valueOf (vbatmaxcellvoltageType K) (vbatmaxcellvoltage log) \<longrightarrow>
     1 \<le> flightLogEstimateNumCells K log \<and> flightLogEstimateNumCells K log \<le> 8
     \<and> (\<forall>k. 1 \<le> k \<and> k < flightLogEstimateNumCells K log \<longrightarrow>
           \<not> uint (flightLogVbatToMillivolts K log (of_nat (vbatref log)) div 100)
               < int k * valueOf (vbatmaxcellvoltageType K) (vbatmaxcellvoltage log))
     \<and> (flightLogEstimateNumCells K log < 8 \<longrightarrow>
           uint (flightLogVbatToMillivolts K log (of_nat (vbatref log)) div 100)
             < int (flightLogEstimateNumCells K log)
                 * valueOf (vbatmaxcellvoltageType K) (vbatmaxcellvoltage log))"
proof (intro conjI impI)
  assume lo: "- (2 ^ 31) \<le> 7 * valueOf (vbatmaxcellvoltageType K) (vbatmaxcellvoltage log)"
  let ?r = "flightLogVbatToMillivolts K log (of_nat (vbatref log)) div 100"
  let ?V = "valueOf (vbatmaxcellvoltageType K) (vbatmaxcellvoltage log)"
  let ?n = "flightLogEstimateNumCells K log"
  have r: "uint ?r \<le> 42949672" by (rule uint_div_100)
  have n: "?n = flightLogEstimateNumCells_loop K log ?r 1"
    by (simp add: flightLogEstimateNumCells_def)
  from flightLogEstimateNumCells_loop_least [of 1 K log ?r]
  have L: "1 \<le> ?n" "?n \<le> 8" "\<And>k. 1 \<le> k \<Longrightarrow> k < ?n \<Longrightarrow> \<not> cellsSuffice K log ?r k"
    "?n < 8 \<Longrightarrow> cellsSuffice K log ?r ?n"
    by (simp_all add: n Let_def)
  show "1 \<le> ?n" "?n \<le> 8" by (fact L)+
  show "\<forall>k. 1 \<le> k \<and> k < ?n \<longrightarrow> \<not> uint ?r < int k * ?V"
  proof (intro allI impI)
    fix k assume k: "1 \<le> k \<and> k < ?n"
    show "\<not> uint ?r < int k * ?V"
    proof (cases "uint ?r < ?V")
      case True
      then have "cellsSuffice K log ?r 1" using cellsSuffice_first [OF r] by simp
      then have "?n = 1"
        unfolding n by (subst flightLogEstimateNumCells_loop.simps) simp
      with k show ?thesis by simp
    next
      case False
      then have le: "?V \<le> uint ?r" by simp
      have "k \<le> 7" using k L(2) by linarith
      from cellsSuffice_no_wrap [OF r le lo this] L(3) [of k] k show ?thesis by simp
    qed
  qed
  show "uint ?r < int ?n * ?V" if "?n < 8"
  proof (cases "uint ?r < ?V")
    case True
    then have "cellsSuffice K log ?r 1" using cellsSuffice_first [OF r] by simp
    then have "?n = 1"
      unfolding n by (subst flightLogEstimateNumCells_loop.simps) simp
    with True show ?thesis by simp
  next
    case False
    then have le: "?V \<le> uint ?r" by simp
    have "?n \<le> 7" using that by linarith
    from cellsSuffice_no_wrap [OF r le lo this] L(4) [OF that] show ?thesis by simp
  qed
qed

text \<open>
  Witness of C9: with \<open>vbatref = 1000\<close> and the default scale the reference is 88, and
  three cells of 43 are the first to exceed it.
\<close>

theorem flightLogEstimateNumCells_least_witness:
  "- (2 ^ 31) \<le> 7 * valueOf (vbatmaxcellvoltageType blackboxConsts)
        (vbatmaxcellvoltage
           ((flightLogParse_reset flightLogCreate False False False 0)\<lparr>vbatref := 1000\<rparr>))
   \<and> flightLogEstimateNumCells blackboxConsts
       ((flightLogParse_reset flightLogCreate False False False 0)\<lparr>vbatref := 1000\<rparr>) = 3
   \<and> uint (flightLogVbatToMillivolts blackboxConsts
         ((flightLogParse_reset flightLogCreate False False False 0)\<lparr>vbatref := 1000\<rparr>) 1000
         div 100) = 88
   \<and> \<not> (88 < 2 * (43 :: int)) \<and> 88 < 3 * (43 :: int)"
  using flightLogEstimateNumCells_least
    [of blackboxConsts "(flightLogParse_reset flightLogCreate False False False 0)\<lparr>vbatref := 1000\<rparr>"]
  by (simp add: flightLogEstimateNumCells_def flightLogVbatToMillivolts_def cellsSuffice_def
        flightLogEstimateNumCells_loop.simps blackboxConsts_def
        flightLogParse_reset_def flightLoginvalidateStream_def flightLogCreate_def
        signed_divide_int_def word_less_def)

text \<open>
  While the product \<open>vbat * 330 * vbatscale\<close> stays below \<open>2 ^ 31\<close>,
  \<^verbatim>\<open>flightLogVbatToMillivolts\<close> is \<open>vbat * 330 * vbatscale div 4095\<close> under either declaration
  of the scale.
\<close>

lemma flightLogVbatToMillivolts_in_range:
  assumes "0 \<le> valueOf (vbatscaleType K) (vbatscale log)"
    and "uint vbat * 330 * valueOf (vbatscaleType K) (vbatscale log) < 2 ^ 31"
  shows "uint (flightLogVbatToMillivolts K log vbat)
           = uint vbat * 330 * valueOf (vbatscaleType K) (vbatscale log) div 4095"
proof -
  let ?v = "valueOf (vbatscaleType K) (vbatscale log)"
  let ?p = "uint vbat * 330 * ?v"
  have p0: "0 \<le> ?p" using assms(1) by simp
  have w: "word_of_int ?v = vbatscale log"
    by (cases "vbatscaleType K") simp_all
  have u: "(word_of_int (uint vbat) :: u32) = ucast vbat" by (rule ucast_eq [symmetric])
  have c: "(word_of_int 330 :: u32) = 330" by simp
  have "(word_of_int ?p :: u32) = word_of_int (uint vbat) * word_of_int 330 * word_of_int ?v"
    by (simp only: wi_hom_mult)
  then have prod: "(ucast vbat :: u32) * 330 * vbatscale log = word_of_int ?p"
    by (simp only: u c w)
  have "?p div 4095 \<le> ?p div 1" using p0 by (intro zdiv_mono2) simp_all
  then have le: "?p div 4095 \<le> ?p" by simp
  have q: "0 \<le> ?p div 4095" "?p div 4095 < 2 ^ 31" "?p div 4095 < 2 ^ 32"
    using p0 assms(2) le by (simp_all add: pos_imp_zdiv_nonneg_iff)
  show ?thesis
  proof (cases "vbatscaleType K")
    case C_int
    have "sint (word_of_int ?p :: u32) = ?p"
      using p0 assms(2) by (intro sint_word_of_int_in_range) simp_all
    moreover have "?p sdiv 4095 = ?p div 4095"
      using p0 by (simp add: signed_divide_int_def sgn_if)
    ultimately show ?thesis
      using q by (simp add: flightLogVbatToMillivolts_def C_int prod uint_word_of_int_in_range
          del: of_int_mult)
  next
    case C_unsigned_int
    have "uint (word_of_int ?p :: u32) = ?p"
      using p0 assms(2) by (intro uint_word_of_int_in_range) simp_all
    then show ?thesis
      by (simp add: flightLogVbatToMillivolts_def C_unsigned_int prod uint_div_distrib
          del: of_int_mult)
  qed
qed

text \<open>
  Beyond that the product wraps: a reading of 65535 with scale 199 gives 2128 mV, not
  1050960, and one cell, under either declaration.
\<close>

lemma flightLogVbatToMillivolts_wraps:
  "flightLogVbatToMillivolts blackboxConsts (freshLog\<lparr>vbatscale := 199\<rparr>) 65535 = 2128
   \<and> flightLogVbatToMillivolts (blackboxConsts\<lparr>vbatscaleType := C_unsigned_int\<rparr>)
         (freshLog\<lparr>vbatscale := 199\<rparr>) 65535 = 2128
   \<and> flightLogEstimateNumCells blackboxConsts (freshLog\<lparr>vbatref := 65535, vbatscale := 199\<rparr>) = 1
   \<and> flightLogEstimateNumCells
         (blackboxConsts\<lparr>vbatscaleType := C_unsigned_int,
                          vbatmaxcellvoltageType := C_unsigned_int\<rparr>)
         (freshLog\<lparr>vbatref := 65535, vbatscale := 199\<rparr>) = 1
   \<and> (65535 * 330 * 199 div 4095 :: int) = 1050960"
  by (simp add: flightLogEstimateNumCells_def flightLogVbatToMillivolts_def cellsSuffice_def
        flightLogEstimateNumCells_loop.simps blackboxConsts_def freshLog_def
        flightLogParse_reset_def flightLoginvalidateStream_def flightLogCreate_def
        signed_divide_int_def word_less_def)

section \<open>Completing a keyframe\<close>

lemma mainStreamIsValid_updateFieldStatistics [simp]:
  "mainStreamIsValid (updateFieldStatistics log frm) = mainStreamIsValid log"
  by (simp add: updateFieldStatistics_def Let_def)

lemma hist_updateFieldStatistics [simp]:
  "mainHistory0 (updateFieldStatistics log frm) = mainHistory0 log"
  "mainHistory1 (updateFieldStatistics log frm) = mainHistory1 log"
  "mainHistory2 (updateFieldStatistics log frm) = mainHistory2 log"
  "calls (updateFieldStatistics log frm) = calls log"
  "onFrameReady (updateFieldStatistics log frm) = onFrameReady log"
  "blackboxHistoryRing (updateFieldStatistics log frm) = blackboxHistoryRing log"
  "mainFieldCount (updateFieldStatistics log frm) = mainFieldCount log"
  "logStart (updateFieldStatistics log frm) = logStart log"
  by (simp_all add: updateFieldStatistics_def Let_def)

lemma callFrameReady_fields [simp]:
  "mainStreamIsValid (callFrameReady log v f t n off sz) = mainStreamIsValid log"
  "mainHistory0 (callFrameReady log v f t n off sz) = mainHistory0 log"
  "mainHistory1 (callFrameReady log v f t n off sz) = mainHistory1 log"
  "mainHistory2 (callFrameReady log v f t n off sz) = mainHistory2 log"
  "stats (callFrameReady log v f t n off sz) = stats log"
  "onFrameReady (callFrameReady log v f t n off sz) = onFrameReady log"
  by (simp_all add: callFrameReady_def)

text \<open>
  What \<^verbatim>\<open>updateFieldStatistics\<close> leaves in the statistics: for each of the
  \<open>mainFieldCount\<close> fields the value of the frame, signed or unsigned as the field is,
  becomes both extremes when at most one main frame was counted valid, and widens the
  extremes otherwise; the other fields and the other statistics stay.
\<close>

lemma fold_upd_upt:
  "fold (\<lambda>i fs. fs(i := g i (fs i))) [0..<n] f i = (if i < n then g i (f i) else f i)"
  by (induction n) auto

lemma field_updateFieldStatistics:
  "field (stats (updateFieldStatistics log frm)) i =
     (if i < mainFieldCount log then
        (let v = (if mainFieldSigned log i \<noteq> 0 then sint (frm i) else uint (frm i)) in
         if validCount (frame (stats log) 0x49) + validCount (frame (stats log) 0x50) \<le> 1
         then \<lparr>min_f = v, max_f = v\<rparr>
         else \<lparr>min_f = min v (min_f (field (stats log) i)),
               max_f = max v (max_f (field (stats log) i))\<rparr>)
      else field (stats log) i)"
proof -
  define first where
    "first \<longleftrightarrow> validCount (frame (stats log) 0x49) + validCount (frame (stats log) 0x50) \<le> 1"
  define v where "v = (\<lambda>i. if mainFieldSigned log i \<noteq> 0 then sint (frm i) else uint (frm i))"
  define g where "g = (\<lambda>i (old :: flightLogFieldStatistics).
      if first then \<lparr>min_f = v i, max_f = v i\<rparr>
      else \<lparr>min_f = (if v i < min_f old then v i else min_f old),
            max_f = (if v i > max_f old then v i else max_f old)\<rparr>)"
  have "field (stats (updateFieldStatistics log frm))
          = fold (\<lambda>i fs. fs(i := g i (fs i))) [0..<mainFieldCount log] (field (stats log))"
    unfolding updateFieldStatistics_def Let_def g_def v_def first_def by simp
  then have "field (stats (updateFieldStatistics log frm)) i
          = (if i < mainFieldCount log then g i (field (stats log) i) else field (stats log) i)"
    by (simp only: fold_upd_upt)
  then show ?thesis
    by (simp add: g_def v_def first_def Let_def min_def max_def)
qed

lemma rest_updateFieldStatistics:
  "frame (stats (updateFieldStatistics log frm)) = frame (stats log)"
  "totalBytes (stats (updateFieldStatistics log frm)) = totalBytes (stats log)"
  "totalCorruptFrames (stats (updateFieldStatistics log frm)) = totalCorruptFrames (stats log)"
  "intentionallyAbsentIterations (stats (updateFieldStatistics log frm))
     = intentionallyAbsentIterations (stats log)"
  by (simp_all add: updateFieldStatistics_def Let_def)


text \<open>
  Claim C3. \<^verbatim>\<open>completeIntraframe\<close> leaves the main stream valid if and only if \<open>raw\<close> is set
  or the iteration and the time of the keyframe, read as unsigned, are both at least the
  recorded maxima. When it does, the statistics of every field \<open>i\<close> below
  \<open>mainFieldCount\<close> are updated with the value of the keyframe (both extremes are that
  value while at most one main frame was counted valid, else the smaller of it and the
  minimum, the larger of it and the maximum), the others and the frame counters stay,
  and the ring is rotated (previous and previous-previous are the keyframe, the current
  slot is the next of the ring). When it does not, the stream is invalid, both previous
  slots are cleared, and statistics and current slot stay.
\<close>

theorem completeIntraframe_accepts_iff:
  "(mainStreamIsValid (completeIntraframe log ft fs fe raw)
      \<longleftrightarrow> raw \<or>
          (uint (blackboxHistoryRing log (mainHistory0 log) FLIGHT_LOG_FIELD_INDEX_ITERATION)
              \<ge> max_f (field (stats log) FLIGHT_LOG_FIELD_INDEX_ITERATION)
           \<and> uint (blackboxHistoryRing log (mainHistory0 log) FLIGHT_LOG_FIELD_INDEX_TIME)
              \<ge> max_f (field (stats log) FLIGHT_LOG_FIELD_INDEX_TIME)))
   \<and> (mainStreamIsValid (completeIntraframe log ft fs fe raw) \<longrightarrow>
        field (stats (completeIntraframe log ft fs fe raw)) i
          = (if i < mainFieldCount log then
               (let v = (if mainFieldSigned log i \<noteq> 0
                         then sint (blackboxHistoryRing log (mainHistory0 log) i)
                         else uint (blackboxHistoryRing log (mainHistory0 log) i)) in
                if validCount (frame (stats log) 0x49) + validCount (frame (stats log) 0x50) \<le> 1
                then \<lparr>min_f = v, max_f = v\<rparr>
                else \<lparr>min_f = min v (min_f (field (stats log) i)),
                      max_f = max v (max_f (field (stats log) i))\<rparr>)
             else field (stats log) i)
        \<and> frame (stats (completeIntraframe log ft fs fe raw)) = frame (stats log)
        \<and> mainHistory1 (completeIntraframe log ft fs fe raw)
            = Some (mainHistory0 log)
        \<and> mainHistory2 (completeIntraframe log ft fs fe raw)
            = Some (mainHistory0 log)
        \<and> mainHistory0 (completeIntraframe log ft fs fe raw)
            = nextRingSlot (mainHistory0 log))
   \<and> (\<not> mainStreamIsValid (completeIntraframe log ft fs fe raw) \<longrightarrow>
        stats (completeIntraframe log ft fs fe raw) = stats log
        \<and> mainHistory1 (completeIntraframe log ft fs fe raw) = None
        \<and> mainHistory2 (completeIntraframe log ft fs fe raw) = None
        \<and> mainHistory0 (completeIntraframe log ft fs fe raw)
            = mainHistory0 log)"
  by (simp add: completeIntraframe_def Let_def flightLoginvalidateStream_def
        field_updateFieldStatistics rest_updateFieldStatistics)

text \<open>
  Witness of C3: a keyframe with iteration 7 and time 7 against maxima 0 is accepted and
  sets the extremes of field 1 to 7; against maxima 9 it is rejected; after two valid
  frames with extremes 3 and 5 it is accepted and widens the maximum to 7.
\<close>

theorem completeIntraframe_accepts_iff_witness:
  "mainStreamIsValid
     (completeIntraframe (exampleSession\<lparr>blackboxHistoryRing := (\<lambda>_ _. 7)\<rparr>) 0x49 1 3 False)
   \<and> field (stats
       (completeIntraframe (exampleSession\<lparr>blackboxHistoryRing := (\<lambda>_ _. 7)\<rparr>) 0x49 1 3 False)) 1
     = \<lparr>min_f = 7, max_f = 7\<rparr>
   \<and> mainHistory1
       (completeIntraframe (exampleSession\<lparr>blackboxHistoryRing := (\<lambda>_ _. 7)\<rparr>) 0x49 1 3 False)
     = Some 0
   \<and> mainHistory0
       (completeIntraframe (exampleSession\<lparr>blackboxHistoryRing := (\<lambda>_ _. 7)\<rparr>) 0x49 1 3 False)
     = 1
   \<and> \<not> mainStreamIsValid
       (completeIntraframe
          (exampleSession\<lparr>blackboxHistoryRing := (\<lambda>_ _. 7),
                          stats := (stats exampleSession)\<lparr>field := (\<lambda>_. \<lparr>min_f = 0, max_f = 9\<rparr>)\<rparr>\<rparr>)
          0x49 1 3 False)
   \<and> mainHistory1
       (completeIntraframe
          (exampleSession\<lparr>blackboxHistoryRing := (\<lambda>_ _. 7),
                          stats := (stats exampleSession)\<lparr>field := (\<lambda>_. \<lparr>min_f = 0, max_f = 9\<rparr>)\<rparr>\<rparr>)
          0x49 1 3 False)
     = None
   \<and> field (stats
       (completeIntraframe
          (exampleSession\<lparr>blackboxHistoryRing := (\<lambda>_ _. 7),
                          stats := (stats exampleSession)
                            \<lparr>frame := (\<lambda>_. \<lparr>bytes = 0, sizeCount = (\<lambda>_. 0), validCount = 2,
                                             corruptCount = 0, desyncCount = 0\<rparr>),
                             field := (\<lambda>_. \<lparr>min_f = 3, max_f = 5\<rparr>)\<rparr>\<rparr>)
          0x49 1 3 False)) 1
     = \<lparr>min_f = 3, max_f = 7\<rparr>"
  using completeIntraframe_accepts_iff
      [of "exampleSession\<lparr>blackboxHistoryRing := (\<lambda>_ _. 7)\<rparr>" "0x49" 1 3 False 1]
    completeIntraframe_accepts_iff
      [of "exampleSession\<lparr>blackboxHistoryRing := (\<lambda>_ _. 7),
                          stats := (stats exampleSession)\<lparr>field := (\<lambda>_. \<lparr>min_f = 0, max_f = 9\<rparr>)\<rparr>\<rparr>"
          "0x49" 1 3 False 1]
    completeIntraframe_accepts_iff
      [of "exampleSession\<lparr>blackboxHistoryRing := (\<lambda>_ _. 7),
                          stats := (stats exampleSession)
                            \<lparr>frame := (\<lambda>_. \<lparr>bytes = 0, sizeCount = (\<lambda>_. 0), validCount = 2,
                                             corruptCount = 0, desyncCount = 0\<rparr>),
                             field := (\<lambda>_. \<lparr>min_f = 3, max_f = 5\<rparr>)\<rparr>\<rparr>"
          "0x49" 1 3 False 1]
  by (simp add: exampleSession_def freshLog_def flightLogParse_reset_def
        flightLoginvalidateStream_def flightLogCreate_def nextRingSlot_def
        FLIGHT_LOG_FIELD_INDEX_ITERATION_def FLIGHT_LOG_FIELD_INDEX_TIME_def)

section \<open>Corrupt frames\<close>

text \<open>
  Claim C1. In the data phase, when a frame waits for its verdict and its length (the
  cursor after the byte just read, minus \<open>frameStart\<close>) exceeds
  \<^verbatim>\<open>FLIGHT_LOG_MAX_FRAME_LENGTH\<close>, or the byte read is no frame marker, or it is the end of
  input after a read beyond the end inside the frame, the round counts the frame as
  corrupt for its kind and in total, clears the valid flag of the main stream, calls
  \<^verbatim>\<open>onFrameReady\<close> (when given) with validity false and the null pointer, sets the cursor
  back to \<open>frameStart\<close> with the end-of-input flag cleared, and goes on with no frame
  waiting.
\<close>

theorem dataStep_corrupt_frame:
  assumes "lastFrameType loc = Some t"
    and "readChar inp (cur log) = (command, c1)"
    and "FLIGHT_LOG_MAX_FRAME_LENGTH K < nat ((int (logPos c1) - int (frameStart loc)) mod 2 ^ 32)
         \<or> (command \<noteq> EOF \<and> getFrameType (word_of_int command) = None)
         \<or> (command = EOF \<and> prematureEof loc)"
  shows "\<exists>log' loc'. dataStep K inp raw log loc = Continue log' loc'
     \<and> corruptCount (frame (stats log') (marker t)) = corruptCount (frame (stats log) (marker t)) + 1
     \<and> totalCorruptFrames (stats log') = totalCorruptFrames (stats log) + 1
     \<and> \<not> mainStreamIsValid log'
     \<and> calls log' = calls log @
           (if onFrameReady log
            then [FrameReady False None (marker t) 0 (int (logStart log) + int (frameStart loc))
                    (int (nat ((int (logPos c1) - int (frameStart loc)) mod 2 ^ 32)))]
            else [])
     \<and> cur log' = \<lparr>logPos = frameStart loc, eof = False\<rparr>
     \<and> lastFrameType loc' = None \<and> prematureEof loc' = False \<and> frameStart loc' = frameStart loc"
  using assms
  by (auto simp: dataStep_def Let_def callFrameReady_def)

text \<open>
  Witness of C1: a keyframe followed by the byte \<open>0xFF\<close>; the scan goes on at offset 1.
\<close>

theorem dataStep_corrupt_frame_witness:
  "lastFrameType \<lparr>prematureEof = False, frameStart = 1, lastFrameType = Some IntraFrame\<rparr> = Some IntraFrame
   \<and> readChar [0x49, 5, 9, 0xFF, 0x50, 2] (cur (exampleSession\<lparr>cur := \<lparr>logPos = 3, eof = False\<rparr>\<rparr>))
        = (255, \<lparr>logPos = 4, eof = False\<rparr>)
   \<and> (255 :: int) \<noteq> EOF \<and> getFrameType (word_of_int 255) = None
   \<and> (\<exists>log' loc'.
         dataStep blackboxConsts [0x49, 5, 9, 0xFF, 0x50, 2] False
             (exampleSession\<lparr>cur := \<lparr>logPos = 3, eof = False\<rparr>\<rparr>)
             \<lparr>prematureEof = False, frameStart = 1, lastFrameType = Some IntraFrame\<rparr>
           = Continue log' loc'
         \<and> corruptCount (frame (stats log') 0x49) = 1
         \<and> totalCorruptFrames (stats log') = 1
         \<and> \<not> mainStreamIsValid log'
         \<and> calls log' = [FrameReady False None 0x49 0 1 3]
         \<and> cur log' = \<lparr>logPos = 1, eof = False\<rparr>
         \<and> lastFrameType loc' = None)"
  using dataStep_corrupt_frame
    [of "\<lparr>prematureEof = False, frameStart = 1, lastFrameType = Some IntraFrame\<rparr>" IntraFrame
        "[0x49, 5, 9, 0xFF, 0x50, 2]" "exampleSession\<lparr>cur := \<lparr>logPos = 3, eof = False\<rparr>\<rparr>"
        255 "\<lparr>logPos = 4, eof = False\<rparr>" blackboxConsts False]
  by (simp add: readChar_def EOF_def getFrameType_def frameTypes_def exampleSession_def freshLog_def flightLogParse_reset_def
        flightLoginvalidateStream_def flightLogCreate_def blackboxConsts_def) blast

section \<open>No valid delta frame on an invalid stream\<close>

lemma noValidDeltaUntilKeyframe_append:
  "noValidDeltaUntilKeyframe (cs @ ds) \<longleftrightarrow>
     noValidDeltaUntilKeyframe cs \<and> (list_ex (validFrame 0x49) cs \<or> noValidDeltaUntilKeyframe ds)"
  by (induction cs) auto

text \<open>What one call adds to the record of calls, and what it does to the flag.\<close>

lemma parseFrame_free:
  "parse K t inp log raw = Returns log' \<Longrightarrow>
     calls log' = calls log \<and> mainStreamIsValid log' = mainStreamIsValid log
     \<and> onFrameReady log' = onFrameReady log"
  by (cases t)
     (auto simp: parseIntraframe_def parseInterframe_def parseGPSFrame_def parseGPSHomeFrame_def
                 parseEventFrame_def Let_def
           split: outcome.splits sum.splits if_splits prod.splits option.splits FlightLogEvent.splits)

lemma complete_effect: "stepEffect log (complete t log (marker t) fs fe raw)"
  by (cases t)
     (auto simp: stepEffect_def completeIntraframe_def completeInterframe_def completeGPSFrame_def
           completeGPSHomeFrame_def completeEventFrame_def callFrameReady_def Let_def
           flightLoginvalidateStream_def)


lemma startFrame_effect:
  "logOf (startFrame K inp raw command log loc) = Some log' \<Longrightarrow>
     calls log' = calls log \<and> onFrameReady log' = onFrameReady log
     \<and> (mainStreamIsValid log' \<longrightarrow> mainStreamIsValid log)"
  by (auto simp: startFrame_def Let_def split: if_splits option.splits outcome.splits
           dest!: parseFrame_free)

lemma stepEffect_then_start:
  assumes "stepEffect log log2"
    and "calls log' = calls log2 \<and> onFrameReady log' = onFrameReady log2
         \<and> (mainStreamIsValid log' \<longrightarrow> mainStreamIsValid log2)"
  shows "stepEffect log log'"
  using assms unfolding stepEffect_def by auto

lemma dataStep_effect:
  assumes "logOf (dataStep K inp raw log loc) = Some log'"
  shows "stepEffect log log'"
proof -
  obtain command c1 where r: "readChar inp (cur log) = (command, c1)"
    by (cases "readChar inp (cur log)")
  have refl0: "stepEffect log (log\<lparr>cur := c1\<rparr>)"
    by (simp add: stepEffect_def)
  show ?thesis
  proof (cases "lastFrameType loc")
    case None
    with assms r have "logOf (startFrame K inp raw command (log\<lparr>cur := c1\<rparr>) loc) = Some log'"
      by (simp add: dataStep_def)
    from stepEffect_then_start [OF refl0 startFrame_effect [OF this]] show ?thesis .
  next
    case (Some lastType)
    let ?size = "nat ((int (logPos c1) - int (frameStart loc)) mod 2 ^ 32)"
    let ?ft = "if command = EOF then None else getFrameType (word_of_int command)"
    show ?thesis
    proof (cases "?size \<le> FLIGHT_LOG_MAX_FRAME_LENGTH K
                    \<and> (?ft \<noteq> None \<or> (\<not> prematureEof loc \<and> command = EOF))")
      case True
      define log1 where "log1 = (log\<lparr>cur := c1\<rparr>)\<lparr>stats := (stats (log\<lparr>cur := c1\<rparr>))\<lparr>frame :=
            (frame (stats (log\<lparr>cur := c1\<rparr>)))(marker lastType :=
               (frame (stats (log\<lparr>cur := c1\<rparr>)) (marker lastType))
                 \<lparr>bytes := bytes (frame (stats (log\<lparr>cur := c1\<rparr>)) (marker lastType)) + ?size,
                  sizeCount := (sizeCount (frame (stats (log\<lparr>cur := c1\<rparr>)) (marker lastType)))
                     (?size := sizeCount (frame (stats (log\<lparr>cur := c1\<rparr>)) (marker lastType)) ?size + 1),
                  validCount := validCount (frame (stats (log\<lparr>cur := c1\<rparr>)) (marker lastType)) + 1\<rparr>)\<rparr>\<rparr>"
      define log2 where "log2 = complete lastType log1 (marker lastType) (frameStart loc) (logPos c1) raw"
      have s: "logOf (startFrame K inp raw command log2 loc) = Some log'"
        using assms r Some True by (simp add: dataStep_def Let_def log1_def log2_def del: complete.simps)
      have e1: "stepEffect log1 log2" unfolding log2_def by (rule complete_effect)
      have e0: "stepEffect log log2"
        using e1 unfolding stepEffect_def log1_def by simp
      from stepEffect_then_start [OF e0 startFrame_effect [OF s]] show ?thesis .
    next
      case False
      with assms r Some show ?thesis
        by (auto simp: dataStep_def Let_def callFrameReady_def stepEffect_def split: if_splits)
    qed
  qed
qed

lemma streamInvariant_step:
  assumes "streamInvariant (drop n (calls log)) log" "n \<le> length (calls log)" "stepEffect log log'"
  shows "streamInvariant (drop n (calls log')) log'"
proof -
  from assms(3) obtain new where
    c: "calls log' = calls log @ new" and f: "onFrameReady log' = onFrameReady log"
    and a: "\<not> (mainStreamIsValid log \<and> onFrameReady log) \<longrightarrow> noValidDeltaUntilKeyframe new"
    and b: "mainStreamIsValid log' \<and> onFrameReady log \<longrightarrow>
             mainStreamIsValid log \<or> list_ex (validFrame 0x49) new"
    unfolding stepEffect_def by blast
  have d: "drop n (calls log') = drop n (calls log) @ new"
    using c assms(2) by simp
  show ?thesis
    using assms(1) a b f unfolding streamInvariant_def d noValidDeltaUntilKeyframe_append
    by auto
qed

lemma dataSteps_invariant:
  "streamInvariant (drop k (calls log)) log \<Longrightarrow> k \<le> length (calls log) \<Longrightarrow>
   logOf (dataSteps n K inp raw log loc) = Some log' \<Longrightarrow>
   streamInvariant (drop k (calls log')) log' \<and> k \<le> length (calls log')"
proof (induction n arbitrary: log loc)
  case 0
  then show ?case by simp
next
  case (Suc n)
  show ?case
  proof (cases "dataStep K inp raw log loc")
    case (Continue log1 loc1)
    then have e: "stepEffect log log1" using dataStep_effect [of K inp raw log loc log1] by simp
    have i: "streamInvariant (drop k (calls log1)) log1"
      by (rule streamInvariant_step [OF Suc.prems(1,2) e])
    have l: "k \<le> length (calls log1)"
      using e Suc.prems(2) unfolding stepEffect_def by auto
    from Suc.prems(3) Continue have "logOf (dataSteps n K inp raw log1 loc1) = Some log'" by simp
    from Suc.IH [OF i l this] show ?thesis .
  next
    case (Stop r)
    with Suc.prems(3) have s: "logOf (dataStep K inp raw log loc) = Some log'" by simp
    have e: "stepEffect log log'" by (rule dataStep_effect [OF s])
    have "k \<le> length (calls log')" using e Suc.prems(2) unfolding stepEffect_def by auto
    with streamInvariant_step [OF Suc.prems(1,2) e] show ?thesis by simp
  qed
qed

text \<open>
  Claim C2. \<^verbatim>\<open>completeInterframe\<close> never changes the valid flag of the main stream. And
  from any state of the data phase in which the stream is invalid, however it became so,
  the calls made in any number of further rounds hold no valid P frame before the first
  valid I frame.
\<close>

theorem no_valid_delta_until_keyframe:
  "mainStreamIsValid (completeInterframe log ft fs fe raw) = mainStreamIsValid log
   \<and> (\<not> mainStreamIsValid log \<and> logOf (dataSteps n K inp raw log loc) = Some log' \<longrightarrow>
        noValidDeltaUntilKeyframe (drop (length (calls log)) (calls log')))"
proof (intro conjI impI)
  show "mainStreamIsValid (completeInterframe log ft fs fe raw) = mainStreamIsValid log"
    by (simp add: completeInterframe_def Let_def)
next
  assume h: "\<not> mainStreamIsValid log \<and> logOf (dataSteps n K inp raw log loc) = Some log'"
  then have i: "streamInvariant (drop (length (calls log)) (calls log)) log"
    by (simp add: streamInvariant_def)
  from dataSteps_invariant [OF i _ conjunct2 [OF h]]
  show "noValidDeltaUntilKeyframe (drop (length (calls log)) (calls log'))"
    by (simp add: streamInvariant_def)
qed

text \<open>
  Witness of C2: a P frame on the invalid stream of a fresh session, a keyframe, and a P
  frame after it.
\<close>

lemma sample_run_delivered:
  "delivered (dataSteps 4 blackboxConsts [0x50, 2, 0x49, 8, 20, 0x50, 2] False exampleSession dataStart)
     = Some [FrameReady False (Some [1, 1]) 0x50 2 1 2,
             FrameReady True (Some [8, 20]) 0x49 2 3 3,
             FrameReady True (Some [9, 21]) 0x50 2 6 1]"
  by code_simp

theorem no_valid_delta_until_keyframe_witness:
  "\<not> mainStreamIsValid exampleSession
   \<and> delivered (dataSteps 4 blackboxConsts [0x50, 2, 0x49, 8, 20, 0x50, 2] False
                  exampleSession dataStart)
       = Some [FrameReady False (Some [1, 1]) 0x50 2 1 2,
               FrameReady True (Some [8, 20]) 0x49 2 3 3,
               FrameReady True (Some [9, 21]) 0x50 2 6 1]
   \<and> noValidDeltaUntilKeyframe
         [FrameReady False (Some [1, 1]) 0x50 2 1 2,
          FrameReady True (Some [8, 20]) 0x49 2 3 3,
          FrameReady True (Some [9, 21]) 0x50 2 6 1]"
proof -
  let ?r = "dataSteps 4 blackboxConsts [0x50, 2, 0x49, 8, 20, 0x50, 2] False exampleSession dataStart"
  let ?cs = "[FrameReady False (Some [1, 1]) 0x50 2 1 2,
              FrameReady True (Some [8, 20]) 0x49 2 3 3,
              FrameReady True (Some [9, 21]) 0x50 2 6 1]"
  have inv: "\<not> mainStreamIsValid exampleSession"
    by (simp add: exampleSession_def freshLog_def flightLogParse_reset_def
          flightLoginvalidateStream_def)
  have none: "calls exampleSession = []"
    by (simp add: exampleSession_def freshLog_def flightLogParse_reset_def)
  from sample_run_delivered obtain log' where
    l: "logOf ?r = Some log'" and c: "calls log' = ?cs"
    by (auto simp: delivered_def)
  from no_valid_delta_until_keyframe
      [where log = exampleSession and n = 4 and K = blackboxConsts and raw = False
         and loc = dataStart and log' = log'
         and inp = "[0x50, 2, 0x49, 8, 20, 0x50, 2]"]
    inv l
  have "noValidDeltaUntilKeyframe (drop (length (calls exampleSession)) (calls log'))"
    by blast
  then have "noValidDeltaUntilKeyframe ?cs" by (simp only: none c list.size drop_0)
  with inv sample_run_delivered show ?thesis by blast
qed

section \<open>Event frames of an unknown kind\<close>

text \<open>
  Claim C4 fails on the code: \<^verbatim>\<open>completeEventFrame\<close> calls \<^verbatim>\<open>onEvent\<close> whatever the kind
  stored. On the input \<open>E 0x63 I 5 9\<close>, whose event kind \<open>0x63\<close> is unknown, the event
  callback is called with the invalid kind; the keyframe after it is delivered.
\<close>

theorem unknown_event_is_delivered:
  "delivered (Stop (flightLogParse_data blackboxConsts [0x45, 0x63, 0x49, 5, 9] False
                      exampleSession dataStart))
     = Some [EventReady \<lparr>event = FLIGHT_LOG_EVENT_INVALID, data = noEventData\<rparr>,
             FrameReady True (Some [5, 9]) 0x49 2 3 2]"
  by code_simp

section \<open>A filter that never holds\<close>

lemma shouldHaveFrame_never:
  assumes "frameIntervalPNum log = 0" "frameIntervalPDenom log = 1" "frameIntervalI log \<noteq> 0"
    "sint (frameIntervalI log) \<noteq> - 1"
  shows "shouldHaveFrame K log idx = Inr False"
  using assms
  by (cases "intervalType K") (simp_all add: shouldHaveFrame_def Let_def signed_modulo_int_def)

lemma countSkippedFrames_never_returns:
  assumes "frameIntervalPNum log = 0" "frameIntervalPDenom log = 1" "frameIntervalI log \<noteq> 0"
    "sint (frameIntervalI log) \<noteq> - 1"
  shows "countSkippedFrames K log idx n = None"
proof (cases "countSkippedFrames K log idx n")
  case None
  then show ?thesis .
next
  case (Some y)
  have "frameIntervalPNum log = 0 \<and> frameIntervalPDenom log = 1 \<and> frameIntervalI log \<noteq> 0
          \<and> sint (frameIntervalI log) \<noteq> - 1 \<longrightarrow> False"
    by (rule countSkippedFrames.raw_induct
          [where P = "\<lambda>K log idx n y. frameIntervalPNum log = 0 \<and> frameIntervalPDenom log = 1
                                        \<and> frameIntervalI log \<noteq> 0
                                        \<and> sint (frameIntervalI log) \<noteq> - 1 \<longrightarrow> False",
           OF _ Some])
       (intro impI, elim conjE, simp add: shouldHaveFrame_never, blast)
  with assms show ?thesis by simp
qed

lemma parseInterframe_diverges:
  assumes "frameIntervalPNum log = 0" "frameIntervalPDenom log = 1" "frameIntervalI log \<noteq> 0"
    "sint (frameIntervalI log) \<noteq> - 1"
    and "mainHistory1 log \<noteq> None"
  shows "parseInterframe K inp log raw = Diverges"
  using assms(5)
  by (auto simp: parseInterframe_def skippedSince_def Let_def
        countSkippedFrames_never_returns [OF assms(1-4)])

lemma parseIntraframe_diverges:
  assumes "frameIntervalPNum log = 0" "frameIntervalPDenom log = 1" "frameIntervalI log \<noteq> 0"
    "sint (frameIntervalI log) \<noteq> - 1"
    and "mainHistory1 log \<noteq> None"
  shows "parseIntraframe K inp log raw = Diverges"
  using assms(5)
  by (auto simp: parseIntraframe_def skippedSince_def Let_def
        countSkippedFrames_never_returns [OF assms(1-4)])


lemma interval_updateFieldStatistics [simp]:
  "frameIntervalI (updateFieldStatistics log frm) = frameIntervalI log"
  "frameIntervalPNum (updateFieldStatistics log frm) = frameIntervalPNum log"
  "frameIntervalPDenom (updateFieldStatistics log frm) = frameIntervalPDenom log"
  by (simp_all add: updateFieldStatistics_def Let_def)

lemma interval_callFrameReady [simp]:
  "frameIntervalI (callFrameReady log v f t n off sz) = frameIntervalI log"
  "frameIntervalPNum (callFrameReady log v f t n off sz) = frameIntervalPNum log"
  "frameIntervalPDenom (callFrameReady log v f t n off sz) = frameIntervalPDenom log"
  by (simp_all add: callFrameReady_def)

lemma dataStep_delta_after_keyframe_diverges:
  assumes "lastFrameType loc = Some IntraFrame"
    and "readChar inp (cur log) = (0x50, c1)"
    and "nat ((int (logPos c1) - int (frameStart loc)) mod 2 ^ 32) \<le> FLIGHT_LOG_MAX_FRAME_LENGTH K"
    and "uint (blackboxHistoryRing log (mainHistory0 log) FLIGHT_LOG_FIELD_INDEX_ITERATION)
           \<ge> max_f (field (stats log) FLIGHT_LOG_FIELD_INDEX_ITERATION)"
    and "uint (blackboxHistoryRing log (mainHistory0 log) FLIGHT_LOG_FIELD_INDEX_TIME)
           \<ge> max_f (field (stats log) FLIGHT_LOG_FIELD_INDEX_TIME)"
    and "frameIntervalPNum log = 0" "frameIntervalPDenom log = 1" "frameIntervalI log \<noteq> 0"
    "sint (frameIntervalI log) \<noteq> - 1"
  shows "dataStep K inp raw log loc = Stop Diverges"
proof -
  let ?size = "nat ((int (logPos c1) - int (frameStart loc)) mod 2 ^ 32)"
  define log1 where "log1 = (log\<lparr>cur := c1\<rparr>)\<lparr>stats := (stats (log\<lparr>cur := c1\<rparr>))\<lparr>frame :=
            (frame (stats (log\<lparr>cur := c1\<rparr>)))(marker IntraFrame :=
               (frame (stats (log\<lparr>cur := c1\<rparr>)) (marker IntraFrame))
                 \<lparr>bytes := bytes (frame (stats (log\<lparr>cur := c1\<rparr>)) (marker IntraFrame)) + ?size,
                  sizeCount := (sizeCount (frame (stats (log\<lparr>cur := c1\<rparr>)) (marker IntraFrame)))
                     (?size := sizeCount (frame (stats (log\<lparr>cur := c1\<rparr>)) (marker IntraFrame)) ?size + 1),
                  validCount := validCount (frame (stats (log\<lparr>cur := c1\<rparr>)) (marker IntraFrame)) + 1\<rparr>)\<rparr>\<rparr>"
  define log2 where "log2 = completeIntraframe log1 (marker IntraFrame) (frameStart loc) (logPos c1) raw"
  have step: "dataStep K inp raw log loc = startFrame K inp raw 0x50 log2 loc"
    using assms(1-4) by (simp add: dataStep_def Let_def log1_def log2_def EOF_def getFrameType_def frameTypes_def)
  have acc: "mainStreamIsValid log2"
    using assms(4,5) by (simp add: log2_def log1_def completeIntraframe_def Let_def)
  then have h: "mainHistory1 log2 \<noteq> None"
    by (auto simp: log2_def completeIntraframe_def Let_def flightLoginvalidateStream_def
             split: if_splits)
  have i: "frameIntervalPNum log2 = 0" "frameIntervalPDenom log2 = 1" "frameIntervalI log2 \<noteq> 0"
    "sint (frameIntervalI log2) \<noteq> - 1"
    using assms(6-9)
    by (simp_all add: log2_def log1_def completeIntraframe_def Let_def flightLoginvalidateStream_def)
  show ?thesis
    unfolding step
    by (simp add: startFrame_def EOF_def Let_def getFrameType_def frameTypes_def
          parseInterframe_diverges [OF i h])
qed

lemma first_keyframe_parsed:
  "(case dataStep blackboxConsts [0x49, 0, 0, 0x50, 0] False
           (exampleSession\<lparr>frameIntervalPNum := 0\<rparr>) dataStart of
      Continue l1 loc1 \<Rightarrow>
        lastFrameType loc1 = Some IntraFrame \<and> frameStart loc1 = 1
        \<and> cur l1 = \<lparr>logPos = 3, eof = False\<rparr>
        \<and> uint (blackboxHistoryRing l1 (mainHistory0 l1) 0) \<ge> max_f (field (stats l1) 0)
        \<and> uint (blackboxHistoryRing l1 (mainHistory0 l1) 1) \<ge> max_f (field (stats l1) 1)
        \<and> frameIntervalPNum l1 = 0 \<and> frameIntervalPDenom l1 = 1 \<and> frameIntervalI l1 = 32
    | Stop r \<Rightarrow> False)"
  by code_simp

text \<open>
  Claim C10 fails on the code. The header line \<^verbatim>\<open>P interval:0/1\<close> leaves \<open>P_num = 0\<close> and
  \<open>P_denom = 1\<close>; then \<^verbatim>\<open>shouldHaveFrame\<close> holds for no index, and the loop that counts the
  iterations left out never exits once a keyframe has been accepted. On the input
  \<open>I 0 0 P 0\<close> the parse does not return.
\<close>

theorem flightLogParse_data_hangs:
  "flightLogParse_data blackboxConsts [0x49, 0, 0, 0x50, 0] False
     (exampleSession\<lparr>frameIntervalPNum := 0\<rparr>) dataStart = Diverges"
proof -
  let ?inp = "[0x49, 0, 0, 0x50, 0] :: u8 list"
  from first_keyframe_parsed obtain l1 loc1 where
    s1: "dataStep blackboxConsts ?inp False (exampleSession\<lparr>frameIntervalPNum := 0\<rparr>) dataStart
           = Continue l1 loc1"
    and p: "lastFrameType loc1 = Some IntraFrame" "frameStart loc1 = 1"
       "cur l1 = \<lparr>logPos = 3, eof = False\<rparr>"
       "uint (blackboxHistoryRing l1 (mainHistory0 l1) 0) \<ge> max_f (field (stats l1) 0)"
       "uint (blackboxHistoryRing l1 (mainHistory0 l1) 1) \<ge> max_f (field (stats l1) 1)"
       "frameIntervalPNum l1 = 0" "frameIntervalPDenom l1 = 1" "frameIntervalI l1 = 32"
    by (auto split: parseStep.splits)
  have r: "readChar ?inp (cur l1) = (0x50, \<lparr>logPos = 4, eof = False\<rparr>)"
    by (simp add: p readChar_def)
  have s2: "dataStep blackboxConsts ?inp False l1 loc1 = Stop Diverges"
    by (rule dataStep_delta_after_keyframe_diverges [OF p(1) r])
       (use p in \<open>simp_all add: blackboxConsts_def FLIGHT_LOG_FIELD_INDEX_ITERATION_def
          FLIGHT_LOG_FIELD_INDEX_TIME_def\<close>)
  show ?thesis
    by (subst flightLogParse_data.simps, simp only: s1 parseStep.case,
        subst flightLogParse_data.simps, simp only: s2 parseStep.case)
qed

text \<open>
  The same header and input with the interval fields declared \<^verbatim>\<open>unsigned int\<close>: the parse
  does not return either.
\<close>

lemma first_keyframe_parsed_unsigned:
  "(case dataStep (blackboxConsts\<lparr>intervalType := C_unsigned_int\<rparr>) [0x49, 0, 0, 0x50, 0] False
           (exampleSession\<lparr>frameIntervalPNum := 0\<rparr>) dataStart of
      Continue l1 loc1 \<Rightarrow>
        lastFrameType loc1 = Some IntraFrame \<and> frameStart loc1 = 1
        \<and> cur l1 = \<lparr>logPos = 3, eof = False\<rparr>
        \<and> uint (blackboxHistoryRing l1 (mainHistory0 l1) 0) \<ge> max_f (field (stats l1) 0)
        \<and> uint (blackboxHistoryRing l1 (mainHistory0 l1) 1) \<ge> max_f (field (stats l1) 1)
        \<and> frameIntervalPNum l1 = 0 \<and> frameIntervalPDenom l1 = 1 \<and> frameIntervalI l1 = 32
    | Stop r \<Rightarrow> False)"
  by code_simp

lemma unsigned_intervals_hang_too:
  "flightLogParse_data (blackboxConsts\<lparr>intervalType := C_unsigned_int\<rparr>)
     [0x49, 0, 0, 0x50, 0] False (exampleSession\<lparr>frameIntervalPNum := 0\<rparr>) dataStart = Diverges"
proof -
  let ?inp = "[0x49, 0, 0, 0x50, 0] :: u8 list"
  let ?K = "blackboxConsts\<lparr>intervalType := C_unsigned_int\<rparr>"
  from first_keyframe_parsed_unsigned obtain l1 loc1 where
    s1: "dataStep ?K ?inp False (exampleSession\<lparr>frameIntervalPNum := 0\<rparr>) dataStart
           = Continue l1 loc1"
    and p: "lastFrameType loc1 = Some IntraFrame" "frameStart loc1 = 1"
       "cur l1 = \<lparr>logPos = 3, eof = False\<rparr>"
       "uint (blackboxHistoryRing l1 (mainHistory0 l1) 0) \<ge> max_f (field (stats l1) 0)"
       "uint (blackboxHistoryRing l1 (mainHistory0 l1) 1) \<ge> max_f (field (stats l1) 1)"
       "frameIntervalPNum l1 = 0" "frameIntervalPDenom l1 = 1" "frameIntervalI l1 = 32"
    by (auto split: parseStep.splits)
  have r: "readChar ?inp (cur l1) = (0x50, \<lparr>logPos = 4, eof = False\<rparr>)"
    by (simp add: p readChar_def)
  have s2: "dataStep ?K ?inp False l1 loc1 = Stop Diverges"
    by (rule dataStep_delta_after_keyframe_diverges [OF p(1) r])
       (use p in \<open>simp_all add: blackboxConsts_def FLIGHT_LOG_FIELD_INDEX_ITERATION_def
          FLIGHT_LOG_FIELD_INDEX_TIME_def\<close>)
  show ?thesis
    by (subst flightLogParse_data.simps, simp only: s1 parseStep.case,
        subst flightLogParse_data.simps, simp only: s2 parseStep.case)
qed

section \<open>Sane intervals: the data phase ends\<close>

text \<open>
  With \<open>I\<close> not zero and \<open>P_num\<close>, \<open>P_denom\<close> from 1 to \<open>2 ^ 31 - 1\<close> the filter holds at
  index 0 under either declaration of the fields, and the 32-bit counter reaches 0 at
  the latest when it wraps; so the counting loop exits, and the loop of the data phase,
  whose every round decreases \<open>scanMeasure\<close>, returns or ends the process.
\<close>

lemma shouldHaveFrame_at_0:
  assumes "saneIntervals log"
  shows "shouldHaveFrame K log 0 = Inr True"
proof -
  let ?n = "sint (frameIntervalPNum log)" and ?d = "sint (frameIntervalPDenom log)"
  have h: "frameIntervalI log \<noteq> 0" "1 \<le> ?n" "1 \<le> ?d"
    using assms by (simp_all add: saneIntervals_def)
  have nz: "frameIntervalPNum log \<noteq> 0" "frameIntervalPDenom log \<noteq> 0" using h by auto
  have un: "uint (frameIntervalPNum log) = ?n" "uint (frameIntervalPDenom log) = ?d"
    using h sint_lt [of "frameIntervalPNum log"] sint_lt [of "frameIntervalPDenom log"]
    by (simp_all add: uint_sint take_bit_int_eq_self)
  have n1: "frameIntervalPNum log - 1 = word_of_int (?n - 1)" by simp
  have sn: "sint (frameIntervalPNum log - 1) = ?n - 1"
    unfolding n1 using h sint_lt [of "frameIntervalPNum log"]
    by (intro sint_word_of_int_in_range) simp_all
  have un1: "uint (frameIntervalPNum log - 1) = ?n - 1"
    unfolding n1 using h sint_lt [of "frameIntervalPNum log"]
    by (intro uint_word_of_int_in_range) simp_all
  have m: "(?n - 1) mod ?d \<le> ?n - 1"
    using h by (intro zmod_le_nonneg_dividend) simp
  show ?thesis
  proof (cases "intervalType K")
    case C_int
    have "(?n - 1) smod ?d = (?n - 1) mod ?d" using h by (intro smod_nonneg) simp_all
    with m h nz show ?thesis
      by (simp add: shouldHaveFrame_def C_int Let_def sn)
  next
    case C_unsigned_int
    from m h nz show ?thesis
      by (simp add: shouldHaveFrame_def C_unsigned_int Let_def word_less_def uint_mod_distrib
            un un1)
  qed
qed

lemma countSkippedFrames_returns:
  assumes "saneIntervals log"
  shows "countSkippedFrames K log idx n \<noteq> None"
proof (induction "unat (- idx)" arbitrary: idx n rule: less_induct)
  case less
  show ?case
  proof (cases "idx = 0")
    case True
    then show ?thesis
      by (subst countSkippedFrames.simps) (simp add: shouldHaveFrame_at_0 [OF assms])
  next
    case False
    have "- (idx + 1) = - idx - 1" by simp
    moreover have "- idx \<noteq> 0" using False by simp
    moreover have "0 < unat (- idx)" using \<open>- idx \<noteq> 0\<close> by (simp add: unat_gt_0)
    ultimately have "unat (- (idx + 1)) < unat (- idx)"
      by (simp add: unat_minus_one)
    from less.hyps [OF this] have "countSkippedFrames K log (idx + 1) (n + 1) \<noteq> None" .
    then show ?thesis
      by (subst countSkippedFrames.simps) (auto split: sum.splits)
  qed
qed


lemma skippedSince_returns:
  assumes "saneIntervals log"
  shows "skippedSince K log previous \<noteq> Diverges"
proof (cases previous)
  case None
  then show ?thesis by (simp add: skippedSince_def)
next
  case (Some p)
  with countSkippedFrames_returns
      [OF assms, where idx = "p FLIGHT_LOG_FIELD_INDEX_ITERATION + 1" and n = 0 and K = K]
  show ?thesis by (auto simp: skippedSince_def split: option.splits sum.splits)
qed

lemma parse_not_Diverges: "saneIntervals log \<Longrightarrow> parse K t inp log raw \<noteq> Diverges"
  using skippedSince_returns [of log K]
  by (cases t)
     (auto simp: parseIntraframe_def parseInterframe_def parseGPSFrame_def parseGPSHomeFrame_def
                 parseEventFrame_def Let_def
           split: outcome.splits sum.splits prod.splits option.splits FlightLogEvent.splits)

lemma saneIntervals_parse:
  "parse K t inp log raw = Returns log' \<Longrightarrow> saneIntervals log' = saneIntervals log"
  by (cases t)
     (auto simp: parseIntraframe_def parseInterframe_def parseGPSFrame_def parseGPSHomeFrame_def
                 parseEventFrame_def Let_def saneIntervals_def
           split: outcome.splits sum.splits if_splits prod.splits option.splits FlightLogEvent.splits)

lemma saneIntervals_complete:
  "saneIntervals (complete t log m fs fe raw) = saneIntervals log"
  by (cases t)
     (simp_all add: completeIntraframe_def completeInterframe_def completeGPSFrame_def
        completeGPSHomeFrame_def completeEventFrame_def Let_def saneIntervals_def
        flightLoginvalidateStream_def callFrameReady_def)

lemma startFrame_sane:
  assumes "saneIntervals log"
  shows "startFrame K inp raw command log loc \<noteq> Stop Diverges"
    and "startFrame K inp raw command log loc = Continue log' loc' \<Longrightarrow> saneIntervals log'"
  using assms parse_not_Diverges [OF assms]
  by (auto simp: startFrame_def Let_def saneIntervals_def
           split: if_splits option.splits outcome.splits dest!: saneIntervals_parse)

lemma dataStep_sane:
  assumes "saneIntervals log"
  shows "dataStep K inp raw log loc \<noteq> Stop Diverges"
    and "dataStep K inp raw log loc = Continue log' loc' \<Longrightarrow> saneIntervals log'"
proof -
  obtain command c1 where r: "readChar inp (cur log) = (command, c1)"
    by (cases "readChar inp (cur log)")
  have s0: "saneIntervals (log\<lparr>cur := c1\<rparr>)" using assms by (simp add: saneIntervals_def)
  have "dataStep K inp raw log loc \<noteq> Stop Diverges
        \<and> (dataStep K inp raw log loc = Continue log' loc' \<longrightarrow> saneIntervals log')"
  proof (cases "lastFrameType loc")
    case None
    then have "dataStep K inp raw log loc = startFrame K inp raw command (log\<lparr>cur := c1\<rparr>) loc"
      using r by (simp add: dataStep_def)
    with startFrame_sane [OF s0] show ?thesis by auto
  next
    case (Some lastType)
    let ?size = "nat ((int (logPos c1) - int (frameStart loc)) mod 2 ^ 32)"
    let ?ft = "if command = EOF then None else getFrameType (word_of_int command)"
    show ?thesis
    proof (cases "?size \<le> FLIGHT_LOG_MAX_FRAME_LENGTH K
                    \<and> (?ft \<noteq> None \<or> (\<not> prematureEof loc \<and> command = EOF))")
      case True
      define log1 where "log1 = (log\<lparr>cur := c1\<rparr>)\<lparr>stats := (stats (log\<lparr>cur := c1\<rparr>))\<lparr>frame :=
            (frame (stats (log\<lparr>cur := c1\<rparr>)))(marker lastType :=
               (frame (stats (log\<lparr>cur := c1\<rparr>)) (marker lastType))
                 \<lparr>bytes := bytes (frame (stats (log\<lparr>cur := c1\<rparr>)) (marker lastType)) + ?size,
                  sizeCount := (sizeCount (frame (stats (log\<lparr>cur := c1\<rparr>)) (marker lastType)))
                     (?size := sizeCount (frame (stats (log\<lparr>cur := c1\<rparr>)) (marker lastType)) ?size + 1),
                  validCount := validCount (frame (stats (log\<lparr>cur := c1\<rparr>)) (marker lastType)) + 1\<rparr>)\<rparr>\<rparr>"
      define log2 where "log2 = complete lastType log1 (marker lastType) (frameStart loc) (logPos c1) raw"
      have d: "dataStep K inp raw log loc = startFrame K inp raw command log2 loc"
        using r Some True by (simp add: dataStep_def Let_def log1_def log2_def del: complete.simps)
      have "saneIntervals log1" using assms by (simp add: log1_def saneIntervals_def)
      then have s2: "saneIntervals log2" by (simp add: log2_def saneIntervals_complete)
      from d startFrame_sane [OF s2] show ?thesis by auto
    next
      case False
      with r Some assms show ?thesis
        by (auto simp: dataStep_def Let_def callFrameReady_def saneIntervals_def split: if_splits)
    qed
  qed
  then show "dataStep K inp raw log loc \<noteq> Stop Diverges"
    and "dataStep K inp raw log loc = Continue log' loc' \<Longrightarrow> saneIntervals log'"
    by auto
qed

lemma flightLogParse_data_returns_or_aborts:
  "saneIntervals log \<Longrightarrow> flightLogParse_data K inp raw log loc \<noteq> Diverges"
proof (induction K inp raw log loc rule: flightLogParse_data.induct)
  case (1 K inp raw log loc)
  show ?case
  proof (cases "dataStep K inp raw log loc")
    case (Continue log1 loc1)
    from dataStep_sane(2) [OF "1.prems" Continue] have "saneIntervals log1" .
    from "1.IH" [OF Continue this] Continue show ?thesis
      by (subst flightLogParse_data.simps) simp
  next
    case (Stop r)
    with dataStep_sane(1) [OF "1.prems", of K inp raw loc] show ?thesis
      by (subst flightLogParse_data.simps) auto
  qed
qed

section \<open>The history ring\<close>

lemma ring_slot_cases: "k < (3::nat) \<Longrightarrow> k = 0 \<or> k = 1 \<or> k = 2"
  by arith

lemma ringSeparate_no_alias:
  assumes "ringSeparate log"
  shows "mainHistory1 log \<noteq> Some (mainHistory0 log) \<and> mainHistory2 log \<noteq> Some (mainHistory0 log)"
proof -
  from assms have "mainHistory0 log < 3" by (simp add: ringSeparate_def)
  from ring_slot_cases [OF this] assms show ?thesis
    by (auto simp: ringSeparate_def)
qed

lemma ringSeparate_reset: "ringSeparate (flightLogParse_reset log m f e start)"
  by (simp add: ringSeparate_def flightLogParse_reset_def flightLoginvalidateStream_def)

lemma parse_history:
  "parse K t inp log raw = Returns log' \<Longrightarrow>
     mainHistory0 log' = mainHistory0 log \<and> mainHistory1 log' = mainHistory1 log
     \<and> mainHistory2 log' = mainHistory2 log"
  by (cases t)
     (auto simp: parseIntraframe_def parseInterframe_def parseGPSFrame_def parseGPSHomeFrame_def
                 parseEventFrame_def Let_def
           split: outcome.splits sum.splits if_splits prod.splits option.splits FlightLogEvent.splits)

lemma ringSeparate_parse:
  "parse K t inp log raw = Returns log' \<Longrightarrow> ringSeparate log' = ringSeparate log"
  using parse_history [of K t inp log raw log'] by (simp add: ringSeparate_def)

lemma nextRingSlot_mod: "k < 3 \<Longrightarrow> nextRingSlot k = (k + 1) mod 3"
  using ring_slot_cases [of k] by (auto simp: nextRingSlot_def)

lemma ringSeparate_rotate_I:
  "ringSeparate log \<Longrightarrow>
     ringSeparate (log\<lparr>mainHistory1 := Some (mainHistory0 log), mainHistory2 := Some (mainHistory0 log),
                       mainHistory0 := nextRingSlot (mainHistory0 log)\<rparr>)"
  using ring_slot_cases [of "mainHistory0 log"]
  by (auto simp: ringSeparate_def nextRingSlot_def)

lemma ringSeparate_rotate_P:
  "ringSeparate log \<Longrightarrow>
     ringSeparate (log\<lparr>mainHistory2 := mainHistory1 log, mainHistory1 := Some (mainHistory0 log),
                       mainHistory0 := nextRingSlot (mainHistory0 log)\<rparr>)"
  using ring_slot_cases [of "mainHistory0 log"]
  by (auto simp: ringSeparate_def nextRingSlot_def)

lemma ringSeparate_invalidate: "ringSeparate log \<Longrightarrow> ringSeparate (flightLoginvalidateStream log)"
  by (simp add: ringSeparate_def flightLoginvalidateStream_def)

lemma ringSeparate_if:
  "ringSeparate a \<Longrightarrow> ringSeparate b \<Longrightarrow> ringSeparate (if c then a else b)"
  by simp

lemma ringSeparate_flag [simp]:
  "ringSeparate (log\<lparr>mainStreamIsValid := v\<rparr>) = ringSeparate log"
  "ringSeparate (log\<lparr>cur := c\<rparr>) = ringSeparate log"
  "ringSeparate (log\<lparr>stats := st\<rparr>) = ringSeparate log"
  by (simp_all add: ringSeparate_def)

lemma ringSeparate_callFrameReady:
  "ringSeparate (callFrameReady log v f ft n off sz) = ringSeparate log"
  by (simp add: ringSeparate_def)

lemma ringSeparate_completeIntraframe:
  assumes "ringSeparate log"
  shows "ringSeparate (completeIntraframe log m fs fe raw)"
proof -
  define log1 where "log1 =
     (if raw \<or>
         (uint (blackboxHistoryRing log (mainHistory0 log) FLIGHT_LOG_FIELD_INDEX_ITERATION)
             \<ge> max_f (field (stats log) FLIGHT_LOG_FIELD_INDEX_ITERATION)
          \<and> uint (blackboxHistoryRing log (mainHistory0 log) FLIGHT_LOG_FIELD_INDEX_TIME)
             \<ge> max_f (field (stats log) FLIGHT_LOG_FIELD_INDEX_TIME))
      then updateFieldStatistics (log\<lparr>mainStreamIsValid := True\<rparr>)
             (blackboxHistoryRing log (mainHistory0 log))
      else flightLoginvalidateStream log)"
  define log2 where "log2 = callFrameReady log1 (mainStreamIsValid log1)
                   (Some (blackboxHistoryRing log1 (mainHistory0 log1), mainFieldCount log1))
                   m (mainFieldCount log1)
                   (int (logStart log1) + int fs) (int fe - int fs)"
  have eq: "completeIntraframe log m fs fe raw =
      (if mainStreamIsValid log2 then
        log2\<lparr>mainHistory1 := Some (mainHistory0 log2),
              mainHistory2 := Some (mainHistory0 log2),
              mainHistory0 := nextRingSlot (mainHistory0 log2)\<rparr>
      else log2)"
    by (simp only: completeIntraframe_def Let_def log1_def log2_def)
  have "ringSeparate (updateFieldStatistics (log\<lparr>mainStreamIsValid := True\<rparr>)
             (blackboxHistoryRing log (mainHistory0 log)))"
    using assms by (simp add: ringSeparate_def)
  then have "ringSeparate log1"
    unfolding log1_def using ringSeparate_invalidate [OF assms] by (rule ringSeparate_if)
  then have "ringSeparate log2" unfolding log2_def by (simp only: ringSeparate_callFrameReady)
  then show ?thesis unfolding eq using ringSeparate_rotate_I by auto
qed

lemma ringSeparate_completeInterframe:
  assumes "ringSeparate log"
  shows "ringSeparate (completeInterframe log m fs fe raw)"
proof -
  define log1 where "log1 =
            (if mainStreamIsValid log
             then updateFieldStatistics log (blackboxHistoryRing log (mainHistory0 log))
             else log\<lparr>stats := (stats log)\<lparr>frame := (frame (stats log))
                         (0x50 := (frame (stats log) 0x50)
                            \<lparr>desyncCount := desyncCount (frame (stats log) 0x50) + 1\<rparr>)\<rparr>\<rparr>)"
  define log2 where "log2 = callFrameReady log1 (mainStreamIsValid log1)
                   (Some (blackboxHistoryRing log1 (mainHistory0 log1), mainFieldCount log1))
                   m (mainFieldCount log1)
                   (int (logStart log1) + int fs) (int fe - int fs)"
  have eq: "completeInterframe log m fs fe raw =
      (if mainStreamIsValid log2 then
        log2\<lparr>mainHistory2 := mainHistory1 log2,
              mainHistory1 := Some (mainHistory0 log2),
              mainHistory0 := nextRingSlot (mainHistory0 log2)\<rparr>
      else log2)"
    by (simp only: completeInterframe_def Let_def log1_def log2_def)
  have "ringSeparate (updateFieldStatistics log (blackboxHistoryRing log (mainHistory0 log)))"
    using assms by (simp add: ringSeparate_def)
  then have "ringSeparate log1" unfolding log1_def using assms by (intro ringSeparate_if) simp_all
  then have "ringSeparate log2" unfolding log2_def by (simp only: ringSeparate_callFrameReady)
  then show ?thesis unfolding eq using ringSeparate_rotate_P by auto
qed

lemma ringSeparate_complete:
  assumes "ringSeparate log"
  shows "ringSeparate (complete t log m fs fe raw)"
proof (cases t)
  case IntraFrame
  then show ?thesis using ringSeparate_completeIntraframe [OF assms] by simp
next
  case InterFrame
  then show ?thesis using ringSeparate_completeInterframe [OF assms] by simp
next
  case GPSFrame
  then show ?thesis using assms
    by (simp add: completeGPSFrame_def ringSeparate_def callFrameReady_def)
next
  case GPSHomeFrame
  then show ?thesis using assms
    by (simp add: completeGPSHomeFrame_def ringSeparate_def callFrameReady_def Let_def)
next
  case EventFrame
  then show ?thesis using assms
    by (simp add: completeEventFrame_def ringSeparate_def)
qed

lemma ringSeparate_startFrame:
  "ringSeparate log \<Longrightarrow> startFrame K inp raw command log loc = Continue log' loc'
     \<Longrightarrow> ringSeparate log'"
  by (auto simp: startFrame_def Let_def split: if_splits option.splits outcome.splits
           dest!: ringSeparate_parse)

lemma ringSeparate_dataStep:
  assumes "ringSeparate log" "dataStep K inp raw log loc = Continue log' loc'"
  shows "ringSeparate log'"
proof -
  obtain command c1 where r: "readChar inp (cur log) = (command, c1)"
    by (cases "readChar inp (cur log)")
  have s0: "ringSeparate (log\<lparr>cur := c1\<rparr>)" using assms(1) by simp
  show ?thesis
  proof (cases "lastFrameType loc")
    case None
    then have "startFrame K inp raw command (log\<lparr>cur := c1\<rparr>) loc = Continue log' loc'"
      using r assms(2) by (simp add: dataStep_def)
    from ringSeparate_startFrame [OF s0 this] show ?thesis .
  next
    case (Some lastType)
    let ?size = "nat ((int (logPos c1) - int (frameStart loc)) mod 2 ^ 32)"
    let ?ft = "if command = EOF then None else getFrameType (word_of_int command)"
    show ?thesis
    proof (cases "?size \<le> FLIGHT_LOG_MAX_FRAME_LENGTH K
                    \<and> (?ft \<noteq> None \<or> (\<not> prematureEof loc \<and> command = EOF))")
      case True
      define log1 where "log1 = (log\<lparr>cur := c1\<rparr>)\<lparr>stats := (stats (log\<lparr>cur := c1\<rparr>))\<lparr>frame :=
            (frame (stats (log\<lparr>cur := c1\<rparr>)))(marker lastType :=
               (frame (stats (log\<lparr>cur := c1\<rparr>)) (marker lastType))
                 \<lparr>bytes := bytes (frame (stats (log\<lparr>cur := c1\<rparr>)) (marker lastType)) + ?size,
                  sizeCount := (sizeCount (frame (stats (log\<lparr>cur := c1\<rparr>)) (marker lastType)))
                     (?size := sizeCount (frame (stats (log\<lparr>cur := c1\<rparr>)) (marker lastType)) ?size + 1),
                  validCount := validCount (frame (stats (log\<lparr>cur := c1\<rparr>)) (marker lastType)) + 1\<rparr>)\<rparr>\<rparr>"
      define log2 where "log2 = complete lastType log1 (marker lastType) (frameStart loc) (logPos c1) raw"
      have d: "startFrame K inp raw command log2 loc = Continue log' loc'"
        using r Some True assms(2)
        by (simp add: dataStep_def Let_def log1_def log2_def del: complete.simps)
      have "ringSeparate log1" using assms(1) by (simp add: log1_def)
      then have "ringSeparate log2" unfolding log2_def by (rule ringSeparate_complete)
      from ringSeparate_startFrame [OF this d] show ?thesis .
    next
      case False
      with r Some assms show ?thesis
        by (auto simp: dataStep_def Let_def ringSeparate_def callFrameReady_def split: if_splits)
    qed
  qed
qed

lemma ringSeparate_dataSteps:
  "ringSeparate log \<Longrightarrow> dataSteps n K inp raw log loc = Continue log' loc' \<Longrightarrow> ringSeparate log'"
proof (induction n arbitrary: log loc)
  case 0
  then show ?case by simp
next
  case (Suc n)
  from Suc.prems(2) obtain log1 loc1 where
    s: "dataStep K inp raw log loc = Continue log1 loc1"
    and r: "dataSteps n K inp raw log1 loc1 = Continue log' loc'"
    by (auto split: parseStep.splits)
  from Suc.IH [OF ringSeparate_dataStep [OF Suc.prems(1) s] r] show ?case .
qed

end
